theory Spec2Isabelle
  imports Main "HOL-Library.Sublist"
begin

section \<open>JavaScript strings\<close>

text \<open>
  A JavaScript string is a sequence of UTF-16 code units; it is modelled as the list of
  their numbers. \<open>js\<close> turns a literal into that form. Offsets are \<^typ>\<open>int\<close>, since
  the chunker computes them with unbounded JavaScript integers (no value here comes near
  \<open>2^53\<close>).
\<close>

type_synonym jsstring = "nat list"

definition js :: "string \<Rightarrow> jsstring" where
  "js s = map of_char s"

definition jsSlice :: "jsstring \<Rightarrow> int \<Rightarrow> int \<Rightarrow> jsstring" where
  \<comment> \<open>\<open>String.prototype.slice(b, e)\<close>: a negative offset counts from the end, every
      offset is clamped to \<open>[0, length]\<close>, an empty span gives the empty string.\<close>
  "jsSlice s b e =
     (let len = int (length s);
          from = (if b < 0 then max (len + b) 0 else min b len);
          to = (if e < 0 then max (len + e) 0 else min e len);
          span = max (to - from) 0
      in take (nat span) (drop (nat from) s))"

section \<open>Chunker (report.js, \<open>chunkText\<close>)\<close>

record chunk =
  chunk_start :: int
  chunk_end :: int
  chunk_text :: jsstring

text \<open>
  The \<open>while\<close> loop of \<open>chunkText\<close>, with the loop variable \<open>start\<close> and the array
  \<open>chunks\<close> as arguments. The loop has no bound of its own, so the result is an option:
  \<open>None\<close> is a run that never leaves the loop.
\<close>

partial_function (option) chunkLoop ::
  "jsstring \<Rightarrow> int \<Rightarrow> int \<Rightarrow> int \<Rightarrow> chunk list \<Rightarrow> chunk list option" where
  "chunkLoop txt target overlap start chunks =
     (if start < int (length txt) then
        (if min (start + target) (int (length txt)) = int (length txt)
         then Some (chunks @ [\<lparr>chunk_start = start,
                 chunk_end = min (start + target) (int (length txt)),
                 chunk_text = jsSlice txt start (min (start + target) (int (length txt)))\<rparr>])
         else chunkLoop txt target overlap (start + (target - overlap))
                (chunks @ [\<lparr>chunk_start = start,
                 chunk_end = min (start + target) (int (length txt)),
                 chunk_text = jsSlice txt start (min (start + target) (int (length txt)))\<rparr>]))
      else Some chunks)"

definition chunkText :: "jsstring \<Rightarrow> int \<Rightarrow> int \<Rightarrow> chunk list option" where
  "chunkText txt target overlap = chunkLoop txt target overlap 0 []"

text \<open>
  The shape of a chunk list that the loop produces when it is entered at offset \<open>s\<close>:
  every chunk is the one the loop body builds at its offset, the list stops at the chunk
  that reaches the end of the text, and the next chunk starts \<open>target - overlap\<close>
  further on. This predicate only serves to state what the loop returns.
\<close>

fun chain :: "jsstring \<Rightarrow> int \<Rightarrow> int \<Rightarrow> int \<Rightarrow> chunk list \<Rightarrow> bool" where
  "chain txt target overlap s [] = (int (length txt) \<le> s)"
| "chain txt target overlap s (c # cs) =
     (s < int (length txt) \<and>
      c = \<lparr>chunk_start = s, chunk_end = min (s + target) (int (length txt)),
           chunk_text = jsSlice txt s (min (s + target) (int (length txt)))\<rparr> \<and>
      (if min (s + target) (int (length txt)) = int (length txt) then cs = []
       else chain txt target overlap (s + (target - overlap)) cs))"

section \<open>JavaScript string operations\<close>

text \<open>
  Character classes. \<open>isSpace\<close> is the class \<open>\s\<close> of regular expressions, which is
  also the set that \<open>String.prototype.trim\<close> removes (WhiteSpace and LineTerminator of the
  language specification); \<open>isWordChar\<close> is \<open>\w\<close>; \<open>isDigit\<close> is \<open>\d\<close>.
\<close>

definition isSpace :: "nat \<Rightarrow> bool" where
  "isSpace c = ((9 \<le> c \<and> c \<le> 13) \<or> c = 32 \<or> c = 160 \<or> c = 5760 \<or>
                (8192 \<le> c \<and> c \<le> 8202) \<or> c = 8232 \<or> c = 8233 \<or> c = 8239 \<or>
                c = 8287 \<or> c = 12288 \<or> c = 65279)"

definition isDigit :: "nat \<Rightarrow> bool" where
  "isDigit c = (48 \<le> c \<and> c \<le> 57)"

definition isWordChar :: "nat \<Rightarrow> bool" where
  "isWordChar c = ((48 \<le> c \<and> c \<le> 57) \<or> (65 \<le> c \<and> c \<le> 90) \<or> c = 95 \<or> (97 \<le> c \<and> c \<le> 122))"

text \<open>
  Case mapping of one code unit (Unicode 14). A row \<open>(lo, hi, step, tgt)\<close> of a table maps
  the code units \<open>lo, lo + step, ..., hi\<close> to \<open>tgt, tgt + step, ...\<close>; the tables hold the
  code units from 128 on, and a code unit that no row holds is mapped to itself.
  \<open>upperTable\<close> holds the code units whose upper-case form is one other code unit that
  is not below 128, \<open>lowerTable\<close> those whose lower-case form is one other code unit.
\<close>

definition upperTable :: "(nat \<times> nat \<times> nat \<times> nat) list" where
  "upperTable =
    [(181, 181, 1, 924), (224, 246, 1, 192), (248, 254, 1, 216), (255, 255, 1, 376),
     (257, 303, 2, 256), (307, 311, 2, 306), (314, 328, 2, 313), (331, 375, 2, 330),
     (378, 382, 2, 377), (384, 384, 1, 579), (387, 389, 2, 386), (392, 392, 1, 391),
     (396, 396, 1, 395), (402, 402, 1, 401), (405, 405, 1, 502), (409, 409, 1, 408),
     (410, 410, 1, 573), (414, 414, 1, 544), (417, 421, 2, 416), (424, 424, 1, 423),
     (429, 429, 1, 428), (432, 432, 1, 431), (436, 438, 2, 435), (441, 441, 1, 440),
     (445, 445, 1, 444), (447, 447, 1, 503), (453, 453, 1, 452), (454, 454, 1, 452),
     (456, 456, 1, 455), (457, 457, 1, 455), (459, 459, 1, 458), (460, 460, 1, 458),
     (462, 476, 2, 461), (477, 477, 1, 398), (479, 495, 2, 478), (498, 498, 1, 497),
     (499, 499, 1, 497), (501, 501, 1, 500), (505, 543, 2, 504), (547, 563, 2, 546),
     (572, 572, 1, 571), (575, 576, 1, 11390), (578, 578, 1, 577), (583, 591, 2, 582),
     (592, 592, 1, 11375), (593, 593, 1, 11373), (594, 594, 1, 11376), (595, 595, 1, 385),
     (596, 596, 1, 390), (598, 599, 1, 393), (601, 601, 1, 399), (603, 603, 1, 400),
     (604, 604, 1, 42923), (608, 608, 1, 403), (609, 609, 1, 42924), (611, 611, 1, 404),
     (613, 613, 1, 42893), (614, 614, 1, 42922), (616, 616, 1, 407), (617, 617, 1, 406),
     (618, 618, 1, 42926), (619, 619, 1, 11362), (620, 620, 1, 42925), (623, 623, 1, 412),
     (625, 625, 1, 11374), (626, 626, 1, 413), (629, 629, 1, 415), (637, 637, 1, 11364),
     (640, 640, 1, 422), (642, 642, 1, 42949), (643, 643, 1, 425), (647, 647, 1, 42929),
     (648, 648, 1, 430), (649, 649, 1, 580), (650, 651, 1, 433), (652, 652, 1, 581),
     (658, 658, 1, 439), (669, 669, 1, 42930), (670, 670, 1, 42928), (837, 837, 1, 921),
     (881, 883, 2, 880), (887, 887, 1, 886), (891, 893, 1, 1021), (940, 940, 1, 902),
     (941, 943, 1, 904), (945, 961, 1, 913), (962, 962, 1, 931), (963, 971, 1, 931),
     (972, 972, 1, 908), (973, 974, 1, 910), (976, 976, 1, 914), (977, 977, 1, 920),
     (981, 981, 1, 934), (982, 982, 1, 928), (983, 983, 1, 975), (985, 1007, 2, 984),
     (1008, 1008, 1, 922), (1009, 1009, 1, 929), (1010, 1010, 1, 1017), (1011, 1011, 1, 895),
     (1013, 1013, 1, 917), (1016, 1016, 1, 1015), (1019, 1019, 1, 1018), (1072, 1103, 1, 1040),
     (1104, 1119, 1, 1024), (1121, 1153, 2, 1120), (1163, 1215, 2, 1162),
     (1218, 1230, 2, 1217), (1231, 1231, 1, 1216), (1233, 1327, 2, 1232),
     (1377, 1414, 1, 1329), (4304, 4346, 1, 7312), (4349, 4351, 1, 7357),
     (5112, 5117, 1, 5104), (7296, 7296, 1, 1042), (7297, 7297, 1, 1044),
     (7298, 7298, 1, 1054), (7299, 7300, 1, 1057), (7301, 7301, 1, 1058),
     (7302, 7302, 1, 1066), (7303, 7303, 1, 1122), (7304, 7304, 1, 42570),
     (7545, 7545, 1, 42877), (7549, 7549, 1, 11363), (7566, 7566, 1, 42950),
     (7681, 7829, 2, 7680), (7835, 7835, 1, 7776), (7841, 7935, 2, 7840),
     (7936, 7943, 1, 7944), (7952, 7957, 1, 7960), (7968, 7975, 1, 7976),
     (7984, 7991, 1, 7992), (8000, 8005, 1, 8008), (8017, 8023, 2, 8025),
     (8032, 8039, 1, 8040), (8048, 8049, 1, 8122), (8050, 8053, 1, 8136),
     (8054, 8055, 1, 8154), (8056, 8057, 1, 8184), (8058, 8059, 1, 8170),
     (8060, 8061, 1, 8186), (8112, 8113, 1, 8120), (8126, 8126, 1, 921), (8144, 8145, 1, 8152),
     (8160, 8161, 1, 8168), (8165, 8165, 1, 8172), (8526, 8526, 1, 8498),
     (8560, 8575, 1, 8544), (8580, 8580, 1, 8579), (9424, 9449, 1, 9398),
     (11312, 11359, 1, 11264), (11361, 11361, 1, 11360), (11365, 11365, 1, 570),
     (11366, 11366, 1, 574), (11368, 11372, 2, 11367), (11379, 11379, 1, 11378),
     (11382, 11382, 1, 11381), (11393, 11491, 2, 11392), (11500, 11502, 2, 11499),
     (11507, 11507, 1, 11506), (11520, 11557, 1, 4256), (11559, 11559, 1, 4295),
     (11565, 11565, 1, 4301), (42561, 42605, 2, 42560), (42625, 42651, 2, 42624),
     (42787, 42799, 2, 42786), (42803, 42863, 2, 42802), (42874, 42876, 2, 42873),
     (42879, 42887, 2, 42878), (42892, 42892, 1, 42891), (42897, 42899, 2, 42896),
     (42900, 42900, 1, 42948), (42903, 42921, 2, 42902), (42933, 42947, 2, 42932),
     (42952, 42954, 2, 42951), (42961, 42961, 1, 42960), (42967, 42969, 2, 42966),
     (42998, 42998, 1, 42997), (43859, 43859, 1, 42931), (43888, 43967, 1, 5024),
     (65345, 65370, 1, 65313)]"

definition lowerTable :: "(nat \<times> nat \<times> nat \<times> nat) list" where
  "lowerTable =
    [(192, 214, 1, 224), (216, 222, 1, 248), (256, 302, 2, 257), (306, 310, 2, 307),
     (313, 327, 2, 314), (330, 374, 2, 331), (376, 376, 1, 255), (377, 381, 2, 378),
     (385, 385, 1, 595), (386, 388, 2, 387), (390, 390, 1, 596), (391, 391, 1, 392),
     (393, 394, 1, 598), (395, 395, 1, 396), (398, 398, 1, 477), (399, 399, 1, 601),
     (400, 400, 1, 603), (401, 401, 1, 402), (403, 403, 1, 608), (404, 404, 1, 611),
     (406, 406, 1, 617), (407, 407, 1, 616), (408, 408, 1, 409), (412, 412, 1, 623),
     (413, 413, 1, 626), (415, 415, 1, 629), (416, 420, 2, 417), (422, 422, 1, 640),
     (423, 423, 1, 424), (425, 425, 1, 643), (428, 428, 1, 429), (430, 430, 1, 648),
     (431, 431, 1, 432), (433, 434, 1, 650), (435, 437, 2, 436), (439, 439, 1, 658),
     (440, 440, 1, 441), (444, 444, 1, 445), (452, 452, 1, 454), (453, 453, 1, 454),
     (455, 455, 1, 457), (456, 456, 1, 457), (458, 458, 1, 460), (459, 475, 2, 460),
     (478, 494, 2, 479), (497, 497, 1, 499), (498, 500, 2, 499), (502, 502, 1, 405),
     (503, 503, 1, 447), (504, 542, 2, 505), (544, 544, 1, 414), (546, 562, 2, 547),
     (570, 570, 1, 11365), (571, 571, 1, 572), (573, 573, 1, 410), (574, 574, 1, 11366),
     (577, 577, 1, 578), (579, 579, 1, 384), (580, 580, 1, 649), (581, 581, 1, 652),
     (582, 590, 2, 583), (880, 882, 2, 881), (886, 886, 1, 887), (895, 895, 1, 1011),
     (902, 902, 1, 940), (904, 906, 1, 941), (908, 908, 1, 972), (910, 911, 1, 973),
     (913, 929, 1, 945), (931, 939, 1, 963), (975, 975, 1, 983), (984, 1006, 2, 985),
     (1012, 1012, 1, 952), (1015, 1015, 1, 1016), (1017, 1017, 1, 1010), (1018, 1018, 1, 1019),
     (1021, 1023, 1, 891), (1024, 1039, 1, 1104), (1040, 1071, 1, 1072), (1120, 1152, 2, 1121),
     (1162, 1214, 2, 1163), (1216, 1216, 1, 1231), (1217, 1229, 2, 1218),
     (1232, 1326, 2, 1233), (1329, 1366, 1, 1377), (4256, 4293, 1, 11520),
     (4295, 4295, 1, 11559), (4301, 4301, 1, 11565), (5024, 5103, 1, 43888),
     (5104, 5109, 1, 5112), (7312, 7354, 1, 4304), (7357, 7359, 1, 4349),
     (7680, 7828, 2, 7681), (7838, 7838, 1, 223), (7840, 7934, 2, 7841), (7944, 7951, 1, 7936),
     (7960, 7965, 1, 7952), (7976, 7983, 1, 7968), (7992, 7999, 1, 7984),
     (8008, 8013, 1, 8000), (8025, 8031, 2, 8017), (8040, 8047, 1, 8032),
     (8072, 8079, 1, 8064), (8088, 8095, 1, 8080), (8104, 8111, 1, 8096),
     (8120, 8121, 1, 8112), (8122, 8123, 1, 8048), (8124, 8124, 1, 8115),
     (8136, 8139, 1, 8050), (8140, 8140, 1, 8131), (8152, 8153, 1, 8144),
     (8154, 8155, 1, 8054), (8168, 8169, 1, 8160), (8170, 8171, 1, 8058),
     (8172, 8172, 1, 8165), (8184, 8185, 1, 8056), (8186, 8187, 1, 8060),
     (8188, 8188, 1, 8179), (8486, 8486, 1, 969), (8490, 8490, 1, 107), (8491, 8491, 1, 229),
     (8498, 8498, 1, 8526), (8544, 8559, 1, 8560), (8579, 8579, 1, 8580),
     (9398, 9423, 1, 9424), (11264, 11311, 1, 11312), (11360, 11360, 1, 11361),
     (11362, 11362, 1, 619), (11363, 11363, 1, 7549), (11364, 11364, 1, 637),
     (11367, 11371, 2, 11368), (11373, 11373, 1, 593), (11374, 11374, 1, 625),
     (11375, 11375, 1, 592), (11376, 11376, 1, 594), (11378, 11378, 1, 11379),
     (11381, 11381, 1, 11382), (11390, 11391, 1, 575), (11392, 11490, 2, 11393),
     (11499, 11501, 2, 11500), (11506, 11506, 1, 11507), (42560, 42604, 2, 42561),
     (42624, 42650, 2, 42625), (42786, 42798, 2, 42787), (42802, 42862, 2, 42803),
     (42873, 42875, 2, 42874), (42877, 42877, 1, 7545), (42878, 42886, 2, 42879),
     (42891, 42891, 1, 42892), (42893, 42893, 1, 613), (42896, 42898, 2, 42897),
     (42902, 42920, 2, 42903), (42922, 42922, 1, 614), (42923, 42923, 1, 604),
     (42924, 42924, 1, 609), (42925, 42925, 1, 620), (42926, 42926, 1, 618),
     (42928, 42928, 1, 670), (42929, 42929, 1, 647), (42930, 42930, 1, 669),
     (42931, 42931, 1, 43859), (42932, 42946, 2, 42933), (42948, 42948, 1, 42900),
     (42949, 42949, 1, 642), (42950, 42950, 1, 7566), (42951, 42953, 2, 42952),
     (42960, 42960, 1, 42961), (42966, 42968, 2, 42967), (42997, 42997, 1, 42998),
     (65313, 65338, 1, 65345)]"

definition caseLookup :: "(nat \<times> nat \<times> nat \<times> nat) list \<Rightarrow> nat \<Rightarrow> nat" where
  "caseLookup tab c =
     (case find (\<lambda>(lo, hi, step, tgt). lo \<le> c \<and> c \<le> hi \<and> (c - lo) mod step = 0) tab of
        None \<Rightarrow> c
      | Some (lo, hi, step, tgt) \<Rightarrow> tgt + (c - lo))"

text \<open>
  \<open>canonicalize\<close> is the case folding of a regular expression with the \<open>i\<close> flag and
  without \<open>u\<close>: the upper-case form of the code unit when that is one code unit, except
  that a code unit from 128 on never folds to one below 128. \<open>toLowerCase\<close> maps code unit
  by code unit; the capital I with a dot (304) becomes two code units. Two rules of
  \<open>String.prototype.toLowerCase\<close> are not written out: a capital sigma at the end of a
  word becomes the final form of the small sigma, and a letter outside the basic plane
  (a pair of surrogates) has a lower-case form; here such a sigma becomes the plain small
  sigma and a surrogate stays as it is.
\<close>

definition canonicalize :: "nat \<Rightarrow> nat" where
  "canonicalize c =
     (if c < 128 then (if 97 \<le> c \<and> c \<le> 122 then c - 32 else c)
      else caseLookup upperTable c)"

definition lowerChar :: "nat \<Rightarrow> nat" where
  "lowerChar c =
     (if c < 128 then (if 65 \<le> c \<and> c \<le> 90 then c + 32 else c)
      else caseLookup lowerTable c)"

definition toLowerCase :: "jsstring \<Rightarrow> jsstring" where
  "toLowerCase s = concat (map (\<lambda>c. if c = 304 then [105, 775] else [lowerChar c]) s)"

definition trim :: "jsstring \<Rightarrow> jsstring" where
  "trim s = rev (dropWhile isSpace (rev (dropWhile isSpace s)))"

definition jsIncludes :: "jsstring \<Rightarrow> jsstring \<Rightarrow> bool" where
  \<comment> \<open>\<open>s.includes(sub)\<close>: \<open>sub\<close> occurs in \<open>s\<close> as a contiguous run.\<close>
  "jsIncludes s sub = sublist sub s"

fun indexFrom :: "jsstring \<Rightarrow> nat \<Rightarrow> jsstring \<Rightarrow> int" where
  "indexFrom sub i [] = (if sub = [] then int i else - 1)"
| "indexFrom sub i (c # cs) =
     (if prefix sub (c # cs) then int i else indexFrom sub (Suc i) cs)"

definition indexOf :: "jsstring \<Rightarrow> jsstring \<Rightarrow> int" where
  \<comment> \<open>\<open>s.indexOf(sub)\<close>: the first offset where \<open>sub\<close> occurs, or \<open>-1\<close>.\<close>
  "indexOf s sub = indexFrom sub 0 s"

text \<open>
  \<open>s.split(/\s+/)\<close>: the pieces between the maximal runs of white space. A run at the
  start or at the end of the string leaves an empty piece there, and the empty string
  gives one empty piece.
\<close>

function splitFrom :: "jsstring \<Rightarrow> jsstring \<Rightarrow> jsstring list" where
  "splitFrom cur [] = [rev cur]"
| "splitFrom cur (c # cs) =
     (if isSpace c then rev cur # splitFrom [] (dropWhile isSpace cs)
      else splitFrom (c # cur) cs)"
  by pat_completeness auto
termination
  by (relation "measure (\<lambda>(cur, s). length s)")
     (auto simp: length_dropWhile_le less_Suc_eq_le)

definition splitWs :: "jsstring \<Rightarrow> jsstring list" where
  "splitWs s = splitFrom [] s"


section \<open>Regular expressions\<close>

text \<open>
  The regular expressions of the source are kept as data and run by one backtracking
  matcher, written as in the ECMAScript specification: a matcher takes the continuation
  that matches the rest of the pattern, and the first way to succeed wins. A match state
  \<open>(i, p, r, c)\<close> holds the offset reached, the code unit before it (for \<open>\b\<close>), the
  input that is left and the captures made so far, each as (group, start, end).
\<close>

datatype re =
    Chr "nat \<Rightarrow> bool"
  | Eps
  | Seq re re
  | Alt re re
  | Rep0 "nat option" bool re
  | Cap nat re
  | WordB
  | Eol

type_synonym mstate = "nat \<times> nat option \<times> jsstring \<times> (nat \<times> nat \<times> nat) list"

type_synonym cont = "mstate \<Rightarrow> mstate option"

fun isWordBoundary :: "nat option \<Rightarrow> jsstring \<Rightarrow> bool" where
  \<comment> \<open>\<open>\b\<close>: exactly one of the code units before and after the offset is a word
      character; beyond either end of the input there is none.\<close>
  "isWordBoundary None [] = False"
| "isWordBoundary None (c # cs) = isWordChar c"
| "isWordBoundary (Some p) [] = isWordChar p"
| "isWordBoundary (Some p) (c # cs) = (isWordChar p \<noteq> isWordChar c)"

text \<open>
  \<open>repeatMatcher\<close> is the specification's RepeatMatcher for a quantifier with no lower
  bound, \<open>{0,hi}\<close> (\<open>hi = None\<close> is no upper bound), greedy or lazy: a round that consumes
  nothing fails, so every round moves forward. Its second argument is the input that was
  left when the quantifier was entered; one element is dropped per round, so the rounds
  cannot outnumber the code units that are left to consume. A quantifier with a lower
  bound is the sequence of that many copies and the rest (as in \<open>rplus\<close> below).
\<close>

fun repeatMatcher ::
  "(cont \<Rightarrow> mstate \<Rightarrow> mstate option) \<Rightarrow> jsstring \<Rightarrow> nat option \<Rightarrow> bool \<Rightarrow>
   cont \<Rightarrow> mstate \<Rightarrow> mstate option" where
  "repeatMatcher m [] hi greedy k (i, p, r, c) = k (i, p, r, c)"
| "repeatMatcher m (x # left) hi greedy k (i, p, r, c) =
     (if hi = Some 0 then k (i, p, r, c)
      else if greedy then
        (case m (\<lambda>y. if fst y = i then None
                     else repeatMatcher m left (map_option (\<lambda>h. h - 1) hi) greedy k y)
                (i, p, r, c) of
           Some res \<Rightarrow> Some res
         | None \<Rightarrow> k (i, p, r, c))
      else
        (case k (i, p, r, c) of
           Some res \<Rightarrow> Some res
         | None \<Rightarrow> m (\<lambda>y. if fst y = i then None
                     else repeatMatcher m left (map_option (\<lambda>h. h - 1) hi) greedy k y)
                     (i, p, r, c)))"

fun matcher :: "re \<Rightarrow> cont \<Rightarrow> mstate \<Rightarrow> mstate option" where
  "matcher (Chr P) k (i, p, [], c) = None"
| "matcher (Chr P) k (i, p, x # xs, c) = (if P x then k (i + 1, Some x, xs, c) else None)"
| "matcher Eps k (i, p, r, c) = k (i, p, r, c)"
| "matcher (Seq a b) k (i, p, r, c) = matcher a (\<lambda>y. matcher b k y) (i, p, r, c)"
| "matcher (Alt a b) k (i, p, r, c) =
     (case matcher a k (i, p, r, c) of
        Some res \<Rightarrow> Some res
      | None \<Rightarrow> matcher b k (i, p, r, c))"
| "matcher (Rep0 hi greedy a) k (i, p, r, c) =
     repeatMatcher (\<lambda>k' y. matcher a k' y) r hi greedy k (i, p, r, c)"
| "matcher (Cap n a) k (i, p, r, c) =
     matcher a (\<lambda>y. case y of (j, q, s, d) \<Rightarrow> k (j, q, s, (n, i, j) # d)) (i, p, r, c)"
| "matcher WordB k (i, p, r, c) = (if isWordBoundary p r then k (i, p, r, c) else None)"
| "matcher Eol k (i, p, r, c) = (if r = [] then k (i, p, r, c) else None)"

text \<open>
  \<open>searchFrom\<close> tries the offsets of the input from left to right, as \<open>RegExp.prototype.exec\<close>
  does for a pattern without the sticky flag. A match is the offset where it starts and the
  final state (its end offset and captures).
\<close>

fun searchFrom :: "re \<Rightarrow> nat \<Rightarrow> nat option \<Rightarrow> jsstring \<Rightarrow> (nat \<times> mstate) option" where
  "searchFrom r i p [] =
     (case matcher r Some (i, p, [], []) of
        Some y \<Rightarrow> Some (i, y)
      | None \<Rightarrow> None)"
| "searchFrom r i p (x # xs) =
     (case matcher r Some (i, p, x # xs, []) of
        Some y \<Rightarrow> Some (i, y)
      | None \<Rightarrow> searchFrom r (i + 1) (Some x) xs)"

definition rexec :: "re \<Rightarrow> jsstring \<Rightarrow> (nat \<times> mstate) option" where
  "rexec r s = searchFrom r 0 None s"

definition rtest :: "re \<Rightarrow> jsstring \<Rightarrow> bool" where
  \<comment> \<open>\<open>RegExp.prototype.test\<close>\<close>
  "rtest r s = (rexec r s \<noteq> None)"

definition matchIndex :: "nat \<times> mstate \<Rightarrow> nat" where
  \<comment> \<open>\<open>m.index\<close>\<close>
  "matchIndex m = fst m"

definition matchEnd :: "nat \<times> mstate \<Rightarrow> nat" where
  "matchEnd m = fst (snd m)"

definition matched :: "jsstring \<Rightarrow> nat \<times> mstate \<Rightarrow> jsstring" where
  \<comment> \<open>\<open>m[0]\<close>: the text of the whole match\<close>
  "matched s m = take (matchEnd m - matchIndex m) (drop (matchIndex m) s)"

definition capture :: "jsstring \<Rightarrow> nat \<times> mstate \<Rightarrow> nat \<Rightarrow> jsstring option" where
  \<comment> \<open>\<open>m[n]\<close>: the text of capture \<open>n\<close>, \<open>None\<close> for \<open>undefined\<close>\<close>
  "capture s m n =
     (case map_of (snd (snd (snd (snd m)))) n of
        None \<Rightarrow> None
      | Some (a, b) \<Rightarrow> Some (take (b - a) (drop a s)))"

subsection \<open>Building blocks of the patterns\<close>

definition lit :: "char \<Rightarrow> re" where
  \<comment> \<open>a literal character of a pattern without the \<open>i\<close> flag\<close>
  "lit c = Chr (\<lambda>d. d = of_char c)"

definition litI :: "char \<Rightarrow> re" where
  \<comment> \<open>a literal character of a pattern with the \<open>i\<close> flag\<close>
  "litI c = Chr (\<lambda>d. canonicalize d = canonicalize (of_char c))"

definition seqs :: "re list \<Rightarrow> re" where
  "seqs rs = foldr Seq rs Eps"

fun alts :: "re list \<Rightarrow> re" where
  "alts [] = Chr (\<lambda>_. False)"
| "alts [r] = r"
| "alts (r # rs) = Alt r (alts rs)"

definition str :: "string \<Rightarrow> re" where
  "str w = seqs (map lit w)"

definition strI :: "string \<Rightarrow> re" where
  "strI w = seqs (map litI w)"

definition ropt :: "re \<Rightarrow> re" where
  \<comment> \<open>\<open>r?\<close>\<close>
  "ropt r = Rep0 (Some 1) True r"

definition rstar :: "re \<Rightarrow> re" where
  \<comment> \<open>\<open>r*\<close>\<close>
  "rstar r = Rep0 None True r"

definition rplus :: "re \<Rightarrow> re" where
  \<comment> \<open>\<open>r+\<close>\<close>
  "rplus r = Seq r (Rep0 None True r)"

primrec rrep :: "nat \<Rightarrow> nat option \<Rightarrow> bool \<Rightarrow> re \<Rightarrow> re" where
  \<comment> \<open>\<open>r{lo,hi}\<close>, lazy when the flag is false: \<open>lo\<close> copies of \<open>r\<close>, then up to
      \<open>hi - lo\<close> more\<close>
  "rrep 0 hi greedy r = Rep0 hi greedy r"
| "rrep (Suc n) hi greedy r = Seq r (rrep n (map_option (\<lambda>h. h - 1) hi) greedy r)"

definition ws0 :: re where
  \<comment> \<open>\<open>\s*\<close>\<close>
  "ws0 = rstar (Chr isSpace)"

definition ws1 :: re where
  \<comment> \<open>\<open>\s+\<close>\<close>
  "ws1 = rplus (Chr isSpace)"


section \<open>Evidence locator (extract-manual.js, \<open>findEvidence\<close>)\<close>

text \<open>
  A chunk as \<open>loadChunks\<close> returns it: the name of a chunk file and its text. Of the
  manifest only \<open>primary_url\<close> is read here (\<open>None\<close> when the property is missing). The
  evidence record is the object that \<open>findEvidence\<close> returns.
\<close>

record fchunk =
  file_name :: jsstring
  file_text :: jsstring

record manifest =
  primary_url :: "jsstring option"

record evidence =
  sourceFile :: jsstring
  sourceUrl :: "jsstring option"
  sourceSection :: jsstring
  selector :: jsstring
  snippet :: jsstring

datatype jsError = TypeError | EISDIR

subsection \<open>Patterns\<close>

text \<open>\<open>/\b(provisions|warranties|obligations|not applicable|unknown)\b/i\<close>\<close>

definition boilerplateRe :: re where
  "boilerplateRe =
     seqs [WordB,
           Cap 1 (alts (map strI [''provisions'', ''warranties'', ''obligations'',
                                  ''not applicable'', ''unknown''])),
           WordB]"

text \<open>\<open>/===\s*Item\s+[\d.]+[^=]*===/gi\<close>\<close>

definition sectionRe :: re where
  "sectionRe =
     seqs [str ''==='', ws0, strI ''Item'', ws1,
           rplus (Chr (\<lambda>c. isDigit c \<or> c = of_char (CHR ''.''))),
           rstar (Chr (\<lambda>c. c \<noteq> of_char (CHR ''=''))),
           str ''==='']"

text \<open>
  \<open>new RegExp(escapeForRegex(norm).replace(/\s+/g, "\\s+"), "i")\<close>. \<open>escapeForRegex\<close> puts
  a backslash before every character that has a meaning in a pattern, so each code unit of
  \<open>norm\<close> that is not white space stands for itself (compared without case), and the
  replacement turns each maximal run of white space into \<open>\s+\<close>. The limits of an
  engine are not part of the model: V8 refuses a pattern of some ten thousand characters
  when it is first matched (``Regular expression too large''), so what is shown of the
  search tiers holds of the records that the code returns, not of every run.
\<close>

function flexTokens :: "jsstring \<Rightarrow> re list" where
  "flexTokens [] = []"
| "flexTokens (c # cs) =
     (if isSpace c then ws1 # flexTokens (dropWhile isSpace cs)
      else Chr (\<lambda>d. canonicalize d = canonicalize c) # flexTokens cs)"
  by pat_completeness auto
termination
  by (relation "measure length") (auto simp: length_dropWhile_le less_Suc_eq_le)

definition flexRe :: "jsstring \<Rightarrow> re" where
  "flexRe norm = seqs (flexTokens norm)"

subsection \<open>All matches of a pattern with the \<open>g\<close> flag\<close>

text \<open>
  \<open>s.match(r)\<close> and \<open>s.matchAll(r)\<close> for a global pattern: the search goes on where the
  last match ended, one code unit further after an empty match. Every round moves
  forward, so there are at most \<open>length s + 1\<close> of them; the first argument is a list of
  that length, one element of which is dropped per round.
\<close>

fun matchAllFrom :: "jsstring \<Rightarrow> re \<Rightarrow> nat \<Rightarrow> nat option \<Rightarrow> jsstring \<Rightarrow> (nat \<times> mstate) list" where
  "matchAllFrom [] r i p s = []"
| "matchAllFrom (x # left) r i p s =
     (case searchFrom r i p s of
        None \<Rightarrow> []
      | Some (a, j, q, s', c) \<Rightarrow>
          (a, j, q, s', c) #
          (if j = a then (case s' of [] \<Rightarrow> [] | y # ys \<Rightarrow> matchAllFrom left r (j + 1) (Some y) ys)
           else matchAllFrom left r j q s'))"

definition matchAll :: "re \<Rightarrow> jsstring \<Rightarrow> (nat \<times> mstate) list" where
  "matchAll r s = matchAllFrom (0 # s) r 0 None s"

subsection \<open>The tiers\<close>

definition firstFile :: "fchunk list \<Rightarrow> jsstring" where
  \<comment> \<open>\<open>chunks[0]?.file || "unknown"\<close>\<close>
  "firstFile chunks =
     (case chunks of
        [] \<Rightarrow> js ''unknown''
      | c # _ \<Rightarrow> if file_name c = [] then js ''unknown'' else file_name c)"

definition firstText :: "fchunk list \<Rightarrow> jsstring" where
  \<comment> \<open>\<open>chunks[0]?.text || ""\<close>\<close>
  "firstText chunks = (case chunks of [] \<Rightarrow> [] | c # _ \<Rightarrow> file_text c)"

definition placeholder :: "fchunk list \<Rightarrow> manifest \<Rightarrow> evidence" where
  \<comment> \<open>the record of lines 98-105 and of lines 164-171\<close>
  "placeholder chunks m =
     \<lparr>sourceFile = firstFile chunks,
      sourceUrl = primary_url m,
      sourceSection = [],
      selector = js ''chunk:'' @ firstFile chunks,
      snippet = jsSlice (firstText chunks) 0 200\<rparr>"

definition noEvidenceMarker :: jsstring where
  "noEvidenceMarker = js ''Invalid search text - no evidence found''"

definition invalidSearch :: "fchunk list \<Rightarrow> manifest \<Rightarrow> evidence" where
  \<comment> \<open>the record of lines 110-116\<close>
  "invalidSearch chunks m =
     \<lparr>sourceFile = firstFile chunks,
      sourceUrl = primary_url m,
      sourceSection = [],
      selector = js ''chunk:'' @ firstFile chunks,
      snippet = noEvidenceMarker\<rparr>"

definition suspicious :: "jsstring \<Rightarrow> bool" where
  \<comment> \<open>the condition of line 109\<close>
  "suspicious norm = (rtest boilerplateRe norm \<and> 8 < length (splitWs norm))"

definition sectionBefore :: "jsstring \<Rightarrow> int \<Rightarrow> jsstring" where
  \<comment> \<open>the last section marker before offset \<open>idx\<close>, trimmed, or the empty string\<close>
  "sectionBefore txt idx =
     (let beforeSection = jsSlice txt 0 idx; sectionMatch = matchAll sectionRe beforeSection
      in if sectionMatch = [] then [] else trim (matched beforeSection (last sectionMatch)))"

definition snippetOf :: "jsstring \<Rightarrow> int \<Rightarrow> int \<Rightarrow> jsstring" where
  \<comment> \<open>\<open>chunk.text.slice(snippetStart, snippetEnd).trim().slice(0,200)\<close>\<close>
  "snippetOf txt snippetStart snippetEnd = jsSlice (trim (jsSlice txt snippetStart snippetEnd)) 0 200"

fun exactTier :: "re \<Rightarrow> nat \<Rightarrow> manifest \<Rightarrow> fchunk list \<Rightarrow> evidence option" where
  "exactTier r normLength m [] = None"
| "exactTier r normLength m (chunk # chunks) =
     (case rexec r (file_text chunk) of
        None \<Rightarrow> exactTier r normLength m chunks
      | Some mt \<Rightarrow>
          (let idx = int (matchIndex mt);
               len0 = length (matched (file_text chunk) mt);
               snippetStart = max 0 (idx - 80);
               snippetEnd = min (int (length (file_text chunk)))
                                (idx + int (if len0 = 0 then normLength else len0) + 80)
           in Some \<lparr>sourceFile = file_name chunk,
                     sourceUrl = primary_url m,
                     sourceSection = sectionBefore (file_text chunk) idx,
                     selector = js ''chunk:'' @ file_name chunk,
                     snippet = snippetOf (file_text chunk) snippetStart snippetEnd\<rparr>))"

definition hitCount :: "jsstring list \<Rightarrow> jsstring \<Rightarrow> nat" where
  \<comment> \<open>how many of the first six words occur in the lower-cased chunk text\<close>
  "hitCount ws lower = length (filter (\<lambda>w. jsIncludes lower (toLowerCase w)) (take 6 ws))"

definition threshold :: "jsstring list \<Rightarrow> nat" where
  \<comment> \<open>\<open>Math.min(2, Math.max(1, Math.floor(words.length/2)))\<close>\<close>
  "threshold ws = min 2 (max 1 (length ws div 2))"

definition anchor :: "jsstring list \<Rightarrow> jsstring \<Rightarrow> jsError + jsstring" where
  \<comment> \<open>\<open>words.find(w => lower.includes(w.toLowerCase())) || words[0].toLowerCase()\<close>;
      the words have more than three characters, so a word that is found is never taken
      for false, and \<open>words[0]\<close> of an empty array has no \<open>toLowerCase\<close>\<close>
  "anchor ws lower =
     (case find (\<lambda>w. jsIncludes lower (toLowerCase w)) ws of
        Some w \<Rightarrow> Inr w
      | None \<Rightarrow> (case ws of [] \<Rightarrow> Inl TypeError | w0 # _ \<Rightarrow> Inr (toLowerCase w0)))"

fun fuzzyTier :: "jsstring list \<Rightarrow> manifest \<Rightarrow> fchunk list \<Rightarrow> (jsError + evidence) option" where
  "fuzzyTier ws m [] = None"
| "fuzzyTier ws m (chunk # chunks) =
     (let lower = toLowerCase (file_text chunk)
      in if threshold ws \<le> hitCount ws lower then
           (case anchor ws lower of
              Inl e \<Rightarrow> Some (Inl e)
            | Inr a \<Rightarrow>
                (let idx = max 0 (indexOf lower a);
                     snippetStart = max 0 (idx - 80);
                     snippetEnd = min (int (length (file_text chunk))) (idx + 200)
                 in Some (Inr \<lparr>sourceFile = file_name chunk,
                     sourceUrl = primary_url m,
                     sourceSection = sectionBefore (file_text chunk) idx,
                     selector = js ''chunk:'' @ file_name chunk,
                     snippet = snippetOf (file_text chunk) snippetStart snippetEnd\<rparr>)))
         else fuzzyTier ws m chunks)"

definition searchTiers :: "jsstring \<Rightarrow> fchunk list \<Rightarrow> manifest \<Rightarrow> jsError + evidence" where
  \<comment> \<open>lines 119-171: exact pattern match, word overlap, then the first chunk\<close>
  "searchTiers norm chunks m =
     (case exactTier (flexRe norm) (length norm) m chunks of
        Some ev \<Rightarrow> Inr ev
      | None \<Rightarrow>
          (case fuzzyTier (filter (\<lambda>w. 3 < length w) (splitWs norm)) m chunks of
             Some r \<Rightarrow> r
           | None \<Rightarrow> Inr (placeholder chunks m)))"

definition findEvidence :: "jsstring option \<Rightarrow> fchunk list \<Rightarrow> manifest \<Rightarrow> jsError + evidence" where
  \<comment> \<open>\<open>searchText\<close> is \<open>None\<close> for \<open>null\<close>; \<open>!searchText\<close> holds for \<open>null\<close> and for
      the empty string\<close>
  "findEvidence searchText chunks m =
     (case searchText of
        None \<Rightarrow> Inr (placeholder chunks m)
      | Some t \<Rightarrow>
          if t = [] then Inr (placeholder chunks m)
          else if suspicious (trim t) then Inr (invalidSearch chunks m)
          else searchTiers (trim t) chunks m)"

section \<open>Validator (\<open>checkField\<close>)\<close>











section \<open>The suspicious-text test in plain terms\<close>

text \<open>
  What the test of line 109 asks of a candidate, written without the regular expression
  and without \<open>split\<close>. A term is at offset \<open>j\<close> of a text when its characters stand there,
  each in either case, the code unit before offset \<open>j\<close> (if there is one) is no word
  character, and neither is the code unit after the term (if there is one). The words of
  a text are its maximal runs of code units that are not white space.
\<close>

definition boilerplateTerms :: "string list" where
  "boilerplateTerms =
     [''provisions'', ''warranties'', ''obligations'', ''not applicable'', ''unknown'']"

definition sameLetter :: "nat \<Rightarrow> nat \<Rightarrow> bool" where
  \<comment> \<open>the code unit \<open>c\<close> is the character \<open>d\<close> of a term, or its capital\<close>
  "sameLetter c d = (c = d \<or> (97 \<le> d \<and> d \<le> 122 \<and> c + 32 = d))"

definition termAt :: "jsstring \<Rightarrow> jsstring \<Rightarrow> nat \<Rightarrow> bool" where
  "termAt w s j =
     (j + length w \<le> length s \<and>
      list_all2 sameLetter (take (length w) (drop j s)) w \<and>
      (j = 0 \<or> \<not> isWordChar (s ! (j - 1))) \<and>
      (j + length w = length s \<or> \<not> isWordChar (s ! (j + length w))))"

definition containsTerm :: "jsstring \<Rightarrow> jsstring \<Rightarrow> bool" where
  "containsTerm w s = list_ex (termAt w s) [0..<Suc (length s)]"

definition containsBoilerplate :: "jsstring \<Rightarrow> bool" where
  "containsBoilerplate s = list_ex (\<lambda>w. containsTerm (js w) s) boilerplateTerms"

fun countWords :: "bool \<Rightarrow> jsstring \<Rightarrow> nat" where
  \<comment> \<open>the flag tells whether the code unit before was part of a word\<close>
  "countWords inWord [] = 0"
| "countWords inWord (c # cs) =
     (if isSpace c then countWords False cs
      else (if inWord then 0 else 1) + countWords True cs)"

definition wordCount :: "jsstring \<Rightarrow> nat" where
  "wordCount s = countWords False s"

subsection \<open>Notions used in the proofs\<close>

text \<open>
  \<open>foldsTo r w\<close>: the input \<open>r\<close> starts with the characters of \<open>w\<close>, compared as a
  pattern with the \<open>i\<close> flag compares them. \<open>prevAt p s j\<close>: the code unit before offset
  \<open>j\<close> of \<open>s\<close>, where \<open>p\<close> stands before \<open>s\<close>. \<open>plainTerm w\<close>: the term \<open>w\<close> is made of
  small letters and blanks, and begins and ends with a letter.
\<close>

definition foldsTo :: "jsstring \<Rightarrow> string \<Rightarrow> bool" where
  "foldsTo r w = (length w \<le> length r \<and>
     list_all2 (\<lambda>x a. canonicalize x = canonicalize (of_char a)) (take (length w) r) w)"

definition prevAt :: "nat option \<Rightarrow> jsstring \<Rightarrow> nat \<Rightarrow> nat option" where
  "prevAt p s j = (if j = 0 then p else Some (s ! (j - 1)))"

definition plainTerm :: "string \<Rightarrow> bool" where
  "plainTerm w = (w \<noteq> [] \<and> 97 \<le> (of_char (hd w) :: nat) \<and> (of_char (hd w) :: nat) \<le> 122 \<and>
     97 \<le> (of_char (last w) :: nat) \<and> (of_char (last w) :: nat) \<le> 122 \<and>
     (\<forall>a\<in>set w. (97 \<le> (of_char a :: nat) \<and> (of_char a :: nat) \<le> 122) \<or> (of_char a :: nat) = 32))"


section \<open>Dates of the extraction record\<close>

text \<open>
  \<open>parseDateToISO\<close> leaves in the record either a text of the form \<open>/^\d{4}-\d{2}-\d{2}$/\<close>
  or the first ten characters of \<open>toISOString()\<close>, which has the same form for the years
  0..9999. \<open>new Date(s)\<close> reads such a text as a date in UTC: the month must be 1..12 and
  the day 1..31, otherwise the date is invalid (its time value is \<open>NaN\<close>, here \<open>None\<close>); a
  day beyond the end of the month runs over into the next month, as \<open>MakeDay\<close> computes it.
  A text of another form is not read by this model (\<open>None\<close>).
\<close>

definition digitsVal :: "jsstring \<Rightarrow> nat" where
  "digitsVal ds = foldl (\<lambda>a c. 10 * a + (c - 48)) 0 ds"

definition isoParts :: "jsstring \<Rightarrow> (nat \<times> nat \<times> nat) option" where
  "isoParts s =
     (if length s = 10 \<and> list_all isDigit (take 4 s) \<and> s ! 4 = 45 \<and>
         list_all isDigit (take 2 (drop 5 s)) \<and> s ! 7 = 45 \<and>
         list_all isDigit (take 2 (drop 8 s))
      then Some (digitsVal (take 4 s), digitsVal (take 2 (drop 5 s)), digitsVal (take 2 (drop 8 s)))
      else None)"

definition InLeapYear :: "int \<Rightarrow> bool" where
  "InLeapYear y = (y mod 4 = 0 \<and> (y mod 100 \<noteq> 0 \<or> y mod 400 = 0))"

definition DayFromYear :: "int \<Rightarrow> int" where
  "DayFromYear y =
     365 * (y - 1970) + (y - 1969) div 4 - (y - 1901) div 100 + (y - 1601) div 400"

definition daysBeforeMonth :: "int \<Rightarrow> nat \<Rightarrow> int" where
  \<comment> \<open>the days of the year \<open>y\<close> before its month \<open>m\<close> (1..12)\<close>
  "daysBeforeMonth y m =
     [0, 31, 59, 90, 120, 151, 181, 212, 243, 273, 304, 334] ! (m - 1) +
     (if 2 < m \<and> InLeapYear y then 1 else 0)"

definition MakeDay :: "nat \<Rightarrow> nat \<Rightarrow> nat \<Rightarrow> int" where
  \<comment> \<open>the number of the day \<open>y-m-d\<close>, counted from 1970-01-01\<close>
  "MakeDay y m d = DayFromYear (int y) + daysBeforeMonth (int y) m + (int d - 1)"

definition msPerDay :: int where
  "msPerDay = 86400000"

definition dateValue :: "jsstring \<Rightarrow> int option" where
  \<comment> \<open>the time value of \<open>new Date(s)\<close>\<close>
  "dateValue s =
     (case isoParts s of
        None \<Rightarrow> None
      | Some (y, m, d) \<Rightarrow>
          if 1 \<le> m \<and> m \<le> 12 \<and> 1 \<le> d \<and> d \<le> 31 then Some (MakeDay y m d * msPerDay) else None)"

definition dateAfter :: "jsstring \<Rightarrow> jsstring \<Rightarrow> bool" where
  \<comment> \<open>\<open>new Date(a) > new Date(b)\<close>; a comparison with \<open>NaN\<close> is false\<close>
  "dateAfter a b =
     (case dateValue a of
        None \<Rightarrow> False
      | Some x \<Rightarrow> (case dateValue b of None \<Rightarrow> False | Some y \<Rightarrow> y < x))"

text \<open>
  What ``chronologically after'' means for calendar dates: the later year, or the later
  month of the same year, or the later day of the same month; and the days that a month
  of a year has.
\<close>

definition daysInMonth :: "int \<Rightarrow> nat \<Rightarrow> nat" where
  "daysInMonth y m =
     (if m = 2 then (if InLeapYear y then 29 else 28)
      else if m = 4 \<or> m = 6 \<or> m = 9 \<or> m = 11 then 30 else 31)"

definition calendarDate :: "nat \<times> nat \<times> nat \<Rightarrow> bool" where
  "calendarDate ymd =
     (case ymd of (y, m, d) \<Rightarrow> 1 \<le> m \<and> m \<le> 12 \<and> 1 \<le> d \<and> d \<le> daysInMonth (int y) m)"

definition laterDate :: "nat \<times> nat \<times> nat \<Rightarrow> nat \<times> nat \<times> nat \<Rightarrow> bool" where
  "laterDate a b =
     (case a of (y, m, d) \<Rightarrow> case b of (y', m', d') \<Rightarrow>
        y' < y \<or> (y' = y \<and> (m' < m \<or> (m' = m \<and> d' < d))))"

section \<open>Cross-field checks (extract-manual.js, lines 657-674)\<close>

text \<open>
  A number of the record is a rounded amount: an integer, or \<open>Infinity\<close> when the amount
  is beyond the range of a double.
\<close>

datatype jsnumber = Finite int | PosInfinity

fun atMostZero :: "jsnumber \<Rightarrow> bool" where
  "atMostZero (Finite n) = (n \<le> 0)"
| "atMostZero PosInfinity = False"

definition truthy :: "jsstring option \<Rightarrow> bool" where
  \<comment> \<open>a string value counts as true unless it is \<open>null\<close>, \<open>undefined\<close> or empty\<close>
  "truthy v = (case v of None \<Rightarrow> False | Some s \<Rightarrow> s \<noteq> [])"

text \<open>\<open>/Item\s+1\.01/i\<close> and \<open>/agreement/i\<close>\<close>

definition item101Re :: re where
  "item101Re = seqs [strI ''Item'', ws1, str ''1.01'']"

definition agreementRe :: re where
  "agreementRe = strI ''agreement''"

definition nonPositiveMsg :: jsstring where
  "nonPositiveMsg = js ''event.totalValueUSD is non-positive''"

definition collaborationMsg :: jsstring where
  "collaborationMsg = js ''Collaboration found but no Item 1.01/agreement mention detected''"

definition effectiveAfterFiledMsg :: jsstring where
  "effectiveAfterFiledMsg =
     js ''event.effectiveDate is after doc.filedDate (should be earlier or same)''"

definition crossFieldChecks ::
  "jsnumber option \<Rightarrow> jsstring option \<Rightarrow> jsstring option \<Rightarrow> jsstring option \<Rightarrow>
   jsstring \<Rightarrow> jsstring \<Rightarrow> jsstring list" where
  \<comment> \<open>the list \<open>crossField\<close> after the three checks; the arguments are
      \<open>event.totalValueUSD\<close>, \<open>event.kind\<close>, \<open>event.effectiveDate\<close>, \<open>doc.filedDate\<close>,
      \<open>fullText\<close> and \<open>contextWindow\<close>\<close>
  "crossFieldChecks totalValueUSD kind effectiveDate filedDate fullText contextWindow =
     (case totalValueUSD of
        None \<Rightarrow> []
      | Some v \<Rightarrow> if atMostZero v then [nonPositiveMsg] else []) @
     (if kind = Some (js ''Collaboration'') \<and>
         \<not> rtest item101Re fullText \<and> \<not> rtest agreementRe contextWindow
      then [collaborationMsg] else []) @
     (if truthy effectiveDate \<and> truthy filedDate \<and>
         dateAfter (the effectiveDate) (the filedDate)
      then [effectiveAfterFiledMsg] else [])"


section \<open>Amounts of money (extract-manual.js, \<open>parseMoneyToUSD\<close>)\<close>

subsection \<open>Doubles\<close>

text \<open>
  The numbers of \<open>parseMoneyToUSD\<close> are doubles that are never negative. A double is
  kept as its exact value \<open>m * 2 ^ p\<close>, or it is \<open>Infinity\<close>. \<open>toDouble n d\<close> is the double
  nearest to the fraction \<open>n / d\<close> (\<open>d > 0\<close>): 53 significant bits, ties to the even
  mantissa, exponents not below \<open>-1074\<close>, and \<open>Infinity\<close> from \<open>2 ^ 1024\<close> on.
\<close>

datatype jsdouble = Dbl nat int | DInfinity

fun bitlen :: "nat \<Rightarrow> nat" where
  \<comment> \<open>the number of binary digits\<close>
  "bitlen n = (if n = 0 then 0 else Suc (bitlen (n div 2)))"

declare bitlen.simps [simp del]

definition floorLog2 :: "nat \<Rightarrow> nat \<Rightarrow> int" where
  \<comment> \<open>the exponent \<open>e\<close> with \<open>2 ^ e \<le> n / d < 2 ^ (e + 1)\<close>, for \<open>n > 0\<close> and \<open>d > 0\<close>\<close>
  "floorLog2 n d =
     (let k = int (bitlen n) - int (bitlen d)
      in if (if 0 \<le> k then d * 2 ^ nat k \<le> n else d \<le> n * 2 ^ nat (- k)) then k else k - 1)"

definition roundHalfEven :: "nat \<Rightarrow> nat \<Rightarrow> nat" where
  "roundHalfEven n d =
     (let q = n div d; r = n mod d
      in if 2 * r < d then q else if d < 2 * r then q + 1 else if even q then q else q + 1)"

definition toDouble :: "nat \<Rightarrow> nat \<Rightarrow> jsdouble" where
  "toDouble n d =
     (if n = 0 then Dbl 0 0
      else let p = max (floorLog2 n d - 52) (- 1074);
               m = (if 0 \<le> p then roundHalfEven n (d * 2 ^ nat p)
                    else roundHalfEven (n * 2 ^ nat (- p)) d)
           in if 0 \<le> p \<and> 2 ^ 1024 \<le> m * 2 ^ nat p then DInfinity else Dbl m p)"

fun dblTimes :: "jsdouble \<Rightarrow> nat \<Rightarrow> jsdouble" where
  \<comment> \<open>the product of a double and a whole number that is a double itself
      (1e3, 1e6 and 1e9 are), rounded once\<close>
  "dblTimes DInfinity s = DInfinity"
| "dblTimes (Dbl m p) s =
     (if 0 \<le> p then toDouble (m * s * 2 ^ nat p) 1 else toDouble (m * s) (2 ^ nat (- p)))"

fun mathRound :: "jsdouble \<Rightarrow> jsnumber" where
  \<comment> \<open>\<open>Math.round\<close>: the nearest integer, a half goes up\<close>
  "mathRound DInfinity = PosInfinity"
| "mathRound (Dbl m p) =
     Finite (if 0 \<le> p then int (m * 2 ^ nat p)
             else int ((2 * m + 2 ^ nat (- p)) div 2 ^ (nat (- p) + 1)))"

definition parseFloat :: "jsstring \<Rightarrow> jsdouble" where
  \<comment> \<open>\<open>parseFloat\<close> of a text made of digits, with or without a point and more digits\<close>
  "parseFloat s =
     (let ip = takeWhile (\<lambda>c. c \<noteq> 46) s; fp = drop 1 (dropWhile (\<lambda>c. c \<noteq> 46) s)
      in toDouble (digitsVal (ip @ fp)) (10 ^ length fp))"

subsection \<open>\<open>parseMoneyToUSD\<close>\<close>

text \<open>\<open>/(?:\$|USD\s*)?\s*([0-9]+(?:\.[0-9]+)?)(?:\s*(thousand|million|billion))?/i\<close>\<close>

definition moneyRe :: re where
  "moneyRe =
     seqs [ropt (Alt (lit (CHR ''$'')) (Seq (strI ''USD'') ws0)),
           ws0,
           Cap 1 (Seq (rplus (Chr isDigit)) (ropt (Seq (lit (CHR ''.'')) (rplus (Chr isDigit))))),
           ropt (Seq ws0 (Cap 2 (alts (map strI [''thousand'', ''million'', ''billion'']))))]"

definition parseMoneyToUSD :: "jsstring option \<Rightarrow> jsnumber option" where
  \<comment> \<open>\<open>None\<close> is \<open>null\<close>, as argument and as result. Group 1 is part of every match of
      the pattern, so its text is always there.\<close>
  "parseMoneyToUSD text =
     (case text of
        None \<Rightarrow> None
      | Some t \<Rightarrow>
          if t = [] then None
          else
            (let cleaned = trim (filter (\<lambda>c. c \<noteq> 44) (filter (\<lambda>c. c \<noteq> 40 \<and> c \<noteq> 41) t))
             in case rexec moneyRe cleaned of
                  None \<Rightarrow> None
                | Some m \<Rightarrow>
                    (case capture cleaned m 1 of
                       None \<Rightarrow> None
                     | Some numText \<Rightarrow>
                         (let num = parseFloat numText;
                              scale = toLowerCase (case capture cleaned m 2 of None \<Rightarrow> [] | Some s \<Rightarrow> s)
                          in Some (mathRound
                               (if scale = js ''thousand'' then dblTimes num 1000
                                else if scale = js ''million'' then dblTimes num 1000000
                                else if scale = js ''billion'' then dblTimes num 1000000000
                                else num))))))"


section \<open>Partnerships and deals (extract-manual.js, \<open>run\<close>, lines 380-561 and 684-685)\<close>

text \<open>
  The block works on three values: \<open>fullText\<close>, \<open>contextWindow\<close> and \<open>doc.companyName\<close>
  (\<open>None\<close> when the name was not found). It fills the object \<open>partnership\<close> step by step;
  a property that was never assigned is \<open>None\<close>. \<open>upfrontPaymentUSD\<close> can be assigned
  \<open>null\<close>, which is \<open>Some None\<close>. The variables that only feed the evidence rows
  (\<open>partnerAText\<close>, \<open>partnerBText\<close>, ...) and the console output are left out.
\<close>

record partnership =
  partnerA :: "jsstring option"
  partnerB :: "jsstring option"
  scope :: "jsstring option"
  territory :: "jsstring option"
  upfrontPaymentUSD :: "jsnumber option option"
  milestonesUSD :: "jsnumber option"

record deal =
  deal_target :: "jsstring option"
  deal_buyer :: "jsstring option"
  deal_seller :: "jsstring option"

definition emptyPartnership :: partnership where
  \<comment> \<open>\<open>partnership = {}\<close>\<close>
  "emptyPartnership =
     \<lparr>partnerA = None, partnerB = None, scope = None, territory = None,
      upfrontPaymentUSD = None, milestonesUSD = None\<rparr>"

definition emptyDeal :: deal where
  \<comment> \<open>\<open>deal = {}\<close>\<close>
  "emptyDeal = \<lparr>deal_target = None, deal_buyer = None, deal_seller = None\<rparr>"

subsection \<open>Helpers\<close>

definition grp :: "jsstring \<Rightarrow> nat \<times> mstate \<Rightarrow> nat \<Rightarrow> jsstring" where
  \<comment> \<open>\<open>m[n]\<close> for a group that is part of every match of its pattern\<close>
  "grp s m n = (case capture s m n of None \<Rightarrow> [] | Some t \<Rightarrow> t)"

definition dropLastIf :: "(nat \<Rightarrow> bool) \<Rightarrow> jsstring \<Rightarrow> jsstring" where
  \<comment> \<open>\<open>s.replace(/[...]$/, '')\<close>: the last code unit goes when it is in the class\<close>
  "dropLastIf P s = (if s \<noteq> [] \<and> P (last s) then butlast s else s)"

definition commaOrDot :: "nat \<Rightarrow> bool" where
  \<comment> \<open>\<open>[,.]\<close>\<close>
  "commaOrDot c = (c = 44 \<or> c = 46)"

definition jsSearch :: "re \<Rightarrow> jsstring \<Rightarrow> int" where
  \<comment> \<open>\<open>s.search(r)\<close>\<close>
  "jsSearch r s = (case rexec r s of None \<Rightarrow> - 1 | Some m \<Rightarrow> int (matchIndex m))"

definition isLetter :: "nat \<Rightarrow> bool" where
  \<comment> \<open>\<open>[A-Z]\<close> with the \<open>i\<close> flag: the letters of both cases\<close>
  "isLetter c = ((65 \<le> c \<and> c \<le> 90) \<or> (97 \<le> c \<and> c \<le> 122))"

definition nameChar :: "nat \<Rightarrow> bool" where
  \<comment> \<open>\<open>[A-Za-z0-9\s.,'\-]\<close>\<close>
  "nameChar c = (isLetter c \<or> isDigit c \<or> isSpace c \<or> c = 46 \<or> c = 44 \<or> c = 39 \<or> c = 45)"

definition dealChar :: "nat \<Rightarrow> bool" where
  \<comment> \<open>\<open>[A-Za-z0-9\s.,'&-]\<close>\<close>
  "dealChar c =
     (isLetter c \<or> isDigit c \<or> isSpace c \<or> c = 46 \<or> c = 44 \<or> c = 39 \<or> c = 38 \<or> c = 45)"

definition notDot :: "nat \<Rightarrow> bool" where
  \<comment> \<open>\<open>[^.]\<close>\<close>
  "notDot c = (c \<noteq> 46)"

definition stopChar :: "nat \<Rightarrow> bool" where
  \<comment> \<open>\<open>[.!?]\<close>\<close>
  "stopChar c = (c = 46 \<or> c = 33 \<or> c = 63)"

definition digitOrComma :: "nat \<Rightarrow> bool" where
  \<comment> \<open>\<open>[0-9,]\<close>\<close>
  "digitOrComma c = (isDigit c \<or> c = 44)"

definition dotOpt :: re where
  \<comment> \<open>\<open>\.?\<close>\<close>
  "dotOpt = ropt (lit (CHR ''.''))"

subsection \<open>The two vocabularies\<close>

text \<open>
  \<open>/\b(collaboration|collaborat|license agreement|strategic collaboration|partnership|partner)\b/i\<close>
  and \<open>/\b(merger|acquisition|acquired|acquires|purchase agreement|purchase of)\b/i\<close>
\<close>

definition isPartnershipRe :: re where
  "isPartnershipRe =
     seqs [WordB,
           Cap 1 (alts (map strI [''collaboration'', ''collaborat'', ''license agreement'',
                                 ''strategic collaboration'', ''partnership'', ''partner''])),
           WordB]"

definition isDealRe :: re where
  "isDealRe =
     seqs [WordB,
           Cap 1 (alts (map strI [''merger'', ''acquisition'', ''acquired'', ''acquires'',
                                 ''purchase agreement'', ''purchase of''])),
           WordB]"

subsection \<open>Partner A and partner B\<close>

definition setCompany :: "jsstring option \<Rightarrow> partnership \<Rightarrow> partnership" where
  \<comment> \<open>\<open>if (doc.companyName) partnership.partnerA = doc.companyName\<close>\<close>
  "setCompany companyName p = (if truthy companyName then p\<lparr>partnerA := companyName\<rparr> else p)"

text \<open>
  \<open>F\.\s*Hoffmann-La\s*Roche\s*Ltd\.?\<close>, and the three patterns of \<open>rochePatterns\<close>:
  \<open>/\bwith\s+(F\.\s*Hoffmann-La\s*Roche\s*Ltd\.?)/i\<close>,
  \<open>/\b(F\.\s*Hoffmann-La\s*Roche\s*Ltd\.?)/i\<close> and \<open>/\bwith\s+F\.\s*Roche\s+Ltd/i\<close>.
\<close>

definition rocheNameRe :: re where
  "rocheNameRe =
     seqs [strI ''F.'', ws0, strI ''Hoffmann-La'', ws0, strI ''Roche'', ws0, strI ''Ltd'', dotOpt]"

definition rochePatterns :: "re list" where
  "rochePatterns =
     [seqs [WordB, strI ''with'', ws1, Cap 1 rocheNameRe],
      seqs [WordB, Cap 1 rocheNameRe],
      seqs [WordB, strI ''with'', ws1, strI ''F.'', ws0, strI ''Roche'', ws1, strI ''Ltd'']]"

fun rocheLoop :: "re list \<Rightarrow> jsstring \<Rightarrow> jsstring \<Rightarrow> jsstring option" where
  \<comment> \<open>the loop over \<open>rochePatterns\<close>; the result is what it assigns to \<open>partnerB\<close>\<close>
  "rocheLoop [] fullText contextWindow = None"
| "rocheLoop (pat # pats) fullText contextWindow =
     (case rexec pat contextWindow of
        None \<Rightarrow> rocheLoop pats fullText contextWindow
      | Some rocheMatch \<Rightarrow>
          if truthy (capture contextWindow rocheMatch 1) \<and>
             jsIncludes (grp contextWindow rocheMatch 1) (js ''Hoffmann'')
          then Some (trim (grp contextWindow rocheMatch 1))
          else if jsIncludes (matched contextWindow rocheMatch) (js ''F. Roche Ltd'')
          then (case rexec rocheNameRe fullText of
                  Some fullRocheMatch \<Rightarrow> Some (trim (matched fullText fullRocheMatch))
                | None \<Rightarrow> Some (js ''F. Hoffmann-La Roche Ltd.''))
          else rocheLoop pats fullText contextWindow)"

definition rochePartner :: "jsstring \<Rightarrow> jsstring \<Rightarrow> partnership \<Rightarrow> partnership" where
  "rochePartner fullText contextWindow p =
     (case rocheLoop rochePatterns fullText contextWindow of
        None \<Rightarrow> p
      | Some b \<Rightarrow> p\<lparr>partnerB := Some b\<rparr>)"

text \<open>
  \<open>/\bwith\s+([A-Z][A-Za-z0-9\s.,'\-]{3,80}?(?:Inc\.?|Corporation|Corp\.?|Ltd\.?|LLC|AG|PLC|GmbH|Pharmaceuticals|Holdings)\.?)/i\<close>
  and the words that make a candidate a sentence fragment,
  \<open>/\b(Agreement|provisions|warranties|obligations|representations|confidentiality|contains|among)\b/i\<close>
\<close>

definition withPartnerPattern :: re where
  "withPartnerPattern =
     seqs [WordB, strI ''with'', ws1,
           Cap 1 (seqs [Chr isLetter, rrep 3 (Some 80) False (Chr nameChar),
                        alts [Seq (strI ''Inc'') dotOpt, strI ''Corporation'',
                              Seq (strI ''Corp'') dotOpt, Seq (strI ''Ltd'') dotOpt,
                              strI ''LLC'', strI ''AG'', strI ''PLC'', strI ''GmbH'',
                              strI ''Pharmaceuticals'', strI ''Holdings''],
                        dotOpt])]"

definition fragmentRe :: re where
  "fragmentRe =
     seqs [WordB,
           Cap 1 (alts (map strI [''Agreement'', ''provisions'', ''warranties'', ''obligations'',
                                 ''representations'', ''confidentiality'', ''contains'',
                                 ''among''])),
           WordB]"

definition withPartner :: "jsstring \<Rightarrow> partnership \<Rightarrow> partnership" where
  "withPartner contextWindow p =
     (if truthy (partnerB p) then p
      else case rexec withPartnerPattern contextWindow of
             None \<Rightarrow> p
           | Some withMatch \<Rightarrow>
               (let partner = dropLastIf commaOrDot (trim (grp contextWindow withMatch 1))
                in if length (splitWs partner) \<le> 10 \<and> \<not> rtest fragmentRe partner
                   then p\<lparr>partnerB := Some partner\<rparr> else p))"

text \<open>
  \<open>/between\s+(?:the\s+)?([A-Z][A-Za-z0-9\s.,'\-]{3,80}?(?:Inc\.?|Corp\.?|Ltd\.?|LLC|AG|PLC)\.?)\s+and\s+([A-Z][A-Za-z0-9\s.,'\-]{3,80}?(?:Inc\.?|Corp\.?|Ltd\.?|LLC|AG|PLC)\.?)/i\<close>
\<close>

definition betweenParty :: re where
  "betweenParty =
     seqs [Chr isLetter, rrep 3 (Some 80) False (Chr nameChar),
           alts [Seq (strI ''Inc'') dotOpt, Seq (strI ''Corp'') dotOpt,
                 Seq (strI ''Ltd'') dotOpt, strI ''LLC'', strI ''AG'', strI ''PLC''],
           dotOpt]"

definition betweenPattern :: re where
  "betweenPattern =
     seqs [strI ''between'', ws1, ropt (Seq (strI ''the'') ws1),
           Cap 1 betweenParty, ws1, strI ''and'', ws1, Cap 2 betweenParty]"

definition betweenPartners :: "jsstring \<Rightarrow> partnership \<Rightarrow> partnership" where
  "betweenPartners contextWindow p =
     (if truthy (partnerB p) then p
      else case rexec betweenPattern contextWindow of
             None \<Rightarrow> p
           | Some betweenMatch \<Rightarrow>
               (let p1 = dropLastIf commaOrDot (trim (grp contextWindow betweenMatch 1));
                    p2 = dropLastIf commaOrDot (trim (grp contextWindow betweenMatch 2));
                    q = (if \<not> truthy (partnerA p) \<and> length (splitWs p1) \<le> 10
                         then p\<lparr>partnerA := Some p1\<rparr> else p)
                in if length (splitWs p2) \<le> 10 then q\<lparr>partnerB := Some p2\<rparr> else q))"

text \<open>
  \<open>/\b(F\.\s*Hoffmann-La\s*Roche\s*Ltd\.?|Roche|Genentech,?\s*Inc\.?|Novartis|Pfizer|Merck|Sanofi|Bristol-Myers\s+Squibb|Johnson\s*&\s*Johnson|AstraZeneca|GlaxoSmithKline|Eli\s+Lilly)(?:\s+(?:Ltd\.|Inc\.|AG|PLC|Corp\.?))?\b/gi\<close>
\<close>

definition pharmaPattern :: re where
  "pharmaPattern =
     seqs [WordB,
           Cap 1 (alts [rocheNameRe, strI ''Roche'',
                        seqs [strI ''Genentech'', ropt (lit (CHR '','')), ws0, strI ''Inc'', dotOpt],
                        strI ''Novartis'', strI ''Pfizer'', strI ''Merck'', strI ''Sanofi'',
                        seqs [strI ''Bristol-Myers'', ws1, strI ''Squibb''],
                        seqs [strI ''Johnson'', ws0, lit (CHR ''&''), ws0, strI ''Johnson''],
                        strI ''AstraZeneca'', strI ''GlaxoSmithKline'',
                        seqs [strI ''Eli'', ws1, strI ''Lilly'']]),
           ropt (Seq ws1 (alts [strI ''Ltd.'', strI ''Inc.'', strI ''AG'', strI ''PLC'',
                                Seq (strI ''Corp'') dotOpt])),
           WordB]"

fun pharmaLoop :: "jsstring option \<Rightarrow> jsstring \<Rightarrow> (nat \<times> mstate) list \<Rightarrow> jsstring option" where
  \<comment> \<open>the loop over \<open>pharmaMatches\<close>: the first name that is not part of partner A\<close>
  "pharmaLoop a contextWindow [] = None"
| "pharmaLoop a contextWindow (m # ms) =
     (let pharma = dropLastIf (\<lambda>c. c = 44) (trim (matched contextWindow m))
      in if (case a of
               None \<Rightarrow> True
             | Some s \<Rightarrow> s = [] \<or> \<not> jsIncludes (toLowerCase s) (toLowerCase pharma))
         then Some pharma
         else pharmaLoop a contextWindow ms)"

definition pharmaPartner :: "jsstring \<Rightarrow> partnership \<Rightarrow> partnership" where
  "pharmaPartner contextWindow p =
     (if truthy (partnerB p) then p
      else case pharmaLoop (partnerA p) contextWindow (matchAll pharmaPattern contextWindow) of
             None \<Rightarrow> p
           | Some pharma \<Rightarrow> p\<lparr>partnerB := Some pharma\<rparr>)"

subsection \<open>Scope and territory\<close>

text \<open>
  \<open>/(?:collaboration for)[^.]{0,300}(?:containing|targeting)\s+([^.]{10,200})/i\<close> and
  \<open>/(?:develop|development|commercialization)[^.]{0,300}(?:containing|targeting|for|of)\s+([^.]{10,200})/i\<close>;
  \<open>/[.!?]$/\<close> and \<open>/[.!?]\s/\<close>
\<close>

definition scopePatterns :: "re list" where
  "scopePatterns =
     [seqs [strI ''collaboration for'', Rep0 (Some 300) True (Chr notDot),
            Alt (strI ''containing'') (strI ''targeting''), ws1,
            Cap 1 (rrep 10 (Some 200) True (Chr notDot))],
      seqs [alts (map strI [''develop'', ''development'', ''commercialization'']),
            Rep0 (Some 300) True (Chr notDot),
            alts (map strI [''containing'', ''targeting'', ''for'', ''of'']), ws1,
            Cap 1 (rrep 10 (Some 200) True (Chr notDot))]]"

definition endsSentenceRe :: re where
  "endsSentenceRe = Seq (Chr stopChar) Eol"

definition sentenceEndRe :: re where
  "sentenceEndRe = Seq (Chr stopChar) (Chr isSpace)"

definition extendScope :: "jsstring \<Rightarrow> jsstring \<Rightarrow> jsstring" where
  \<comment> \<open>a scope that does not end a sentence is extended to the end of its sentence, when
      that end is near\<close>
  "extendScope contextWindow scopeText =
     (if rtest endsSentenceRe scopeText then scopeText
      else
        (let extended = jsSlice contextWindow (indexOf contextWindow scopeText)
                          (int (length contextWindow));
             sentenceEnd = jsSearch sentenceEndRe extended
         in if 0 < sentenceEnd \<and> sentenceEnd < 250
            then trim (jsSlice extended 0 (sentenceEnd + 1)) else scopeText))"

fun scopeLoop :: "re list \<Rightarrow> jsstring \<Rightarrow> jsstring option" where
  "scopeLoop [] contextWindow = None"
| "scopeLoop (pat # pats) contextWindow =
     (case rexec pat contextWindow of
        None \<Rightarrow> scopeLoop pats contextWindow
      | Some scopeMatch \<Rightarrow>
          Some (extendScope contextWindow (trim (matched contextWindow scopeMatch))))"

definition scopeStep :: "jsstring \<Rightarrow> partnership \<Rightarrow> partnership" where
  "scopeStep contextWindow p =
     (case scopeLoop scopePatterns contextWindow of
        None \<Rightarrow> p
      | Some scopeText \<Rightarrow> p\<lparr>scope := Some scopeText\<rparr>)"

text \<open>\<open>/\b(worldwide|globally|global|United States|U\.S\.|outside the U\.S\.)\b/i\<close>\<close>

definition territoryRe :: re where
  "territoryRe =
     seqs [WordB,
           Cap 1 (alts (map strI [''worldwide'', ''globally'', ''global'', ''United States'',
                                 ''U.S.'', ''outside the U.S.''])),
           WordB]"

definition territoryStep :: "jsstring \<Rightarrow> partnership \<Rightarrow> partnership" where
  "territoryStep contextWindow p =
     (case rexec territoryRe contextWindow of
        None \<Rightarrow> p
      | Some territoryMatch \<Rightarrow> p\<lparr>territory := Some (matched contextWindow territoryMatch)\<rparr>)"

subsection \<open>Payments\<close>

text \<open>
  \<open>/upfront\s+(?:cash\s+)?payment\s+(?:of\s+)?(\$[0-9,]+(?:\.[0-9]+)?(?:\s*(?:million|billion|thousand))?)/i\<close>
\<close>

definition amountRe :: "string list \<Rightarrow> re" where
  \<comment> \<open>\<open>\$[0-9,]+(?:\.[0-9]+)?(?:\s*(?:w1|w2|...))?\<close>\<close>
  "amountRe scales =
     seqs [lit (CHR ''$''), rplus (Chr digitOrComma),
           ropt (Seq (lit (CHR ''.'')) (rplus (Chr isDigit))),
           ropt (Seq ws0 (alts (map strI scales)))]"

definition upfrontRe :: re where
  "upfrontRe =
     seqs [strI ''upfront'', ws1, ropt (Seq (strI ''cash'') ws1), strI ''payment'', ws1,
           ropt (Seq (strI ''of'') ws1),
           Cap 1 (amountRe [''million'', ''billion'', ''thousand''])]"

definition upfrontStep :: "jsstring \<Rightarrow> partnership \<Rightarrow> partnership" where
  "upfrontStep contextWindow p =
     (case rexec upfrontRe contextWindow of
        None \<Rightarrow> p
      | Some upfrontMatch \<Rightarrow>
          p\<lparr>upfrontPaymentUSD := Some (parseMoneyToUSD (capture contextWindow upfrontMatch 1))\<rparr>)"

text \<open>
  \<open>/(?:up to|total of|potentially)\s+(\$[0-9,]+(?:\.[0-9]+)?(?:\s*(?:billion|million))?)/i\<close> and
  \<open>/milestone\s+payments?\s+(?:of|up to)\s+(\$[0-9,]+(?:\.[0-9]+)?(?:\s*(?:million|billion))?)/i\<close>
\<close>

definition milestonePatterns :: "re list" where
  "milestonePatterns =
     [seqs [alts (map strI [''up to'', ''total of'', ''potentially'']), ws1,
            Cap 1 (amountRe [''billion'', ''million''])],
      seqs [strI ''milestone'', ws1, strI ''payment'', ropt (litI (CHR ''s'')), ws1,
            Alt (strI ''of'') (strI ''up to''), ws1,
            Cap 1 (amountRe [''million'', ''billion''])]]"

fun numGreater :: "jsnumber \<Rightarrow> jsnumber \<Rightarrow> bool" where
  \<comment> \<open>\<open>a > b\<close>\<close>
  "numGreater (Finite a) (Finite b) = (b < a)"
| "numGreater (Finite a) PosInfinity = False"
| "numGreater PosInfinity (Finite b) = True"
| "numGreater PosInfinity PosInfinity = False"

definition orZero :: "jsnumber option option \<Rightarrow> jsnumber" where
  \<comment> \<open>\<open>v || 0\<close>\<close>
  "orZero v = (case v of Some (Some n) \<Rightarrow> n | _ \<Rightarrow> Finite 0)"

fun milestoneLoop :: "re list \<Rightarrow> jsstring \<Rightarrow> jsnumber \<Rightarrow> jsnumber option" where
  \<comment> \<open>the loop over \<open>milestonePatterns\<close>; the third argument is
      \<open>partnership.upfrontPaymentUSD || 0\<close>\<close>
  "milestoneLoop [] contextWindow base = None"
| "milestoneLoop (pat # pats) contextWindow base =
     (case rexec pat contextWindow of
        None \<Rightarrow> milestoneLoop pats contextWindow base
      | Some m \<Rightarrow>
          (case parseMoneyToUSD (capture contextWindow m 1) of
             None \<Rightarrow> milestoneLoop pats contextWindow base
           | Some amt \<Rightarrow>
               if amt \<noteq> Finite 0 \<and> numGreater amt base then Some amt
               else milestoneLoop pats contextWindow base))"

definition milestoneStep :: "jsstring \<Rightarrow> partnership \<Rightarrow> partnership" where
  "milestoneStep contextWindow p =
     (case milestoneLoop milestonePatterns contextWindow (orZero (upfrontPaymentUSD p)) of
        None \<Rightarrow> p
      | Some amt \<Rightarrow> p\<lparr>milestonesUSD := Some amt\<rparr>)"

subsection \<open>The two branches\<close>

definition partnershipBranch :: "jsstring \<Rightarrow> jsstring \<Rightarrow> jsstring option \<Rightarrow> partnership" where
  \<comment> \<open>the object \<open>partnership\<close> when the final test for its two parties is reached\<close>
  "partnershipBranch fullText contextWindow companyName =
     milestoneStep contextWindow
       (upfrontStep contextWindow
         (territoryStep contextWindow
           (scopeStep contextWindow
             (pharmaPartner contextWindow
               (betweenPartners contextWindow
                 (withPartner contextWindow
                   (rochePartner fullText contextWindow
                     (setCompany companyName emptyPartnership))))))))"

text \<open>
  \<open>/(?:acquisition of|acquired|purchase of)\s+([A-Z][A-Za-z0-9\s.,'&-]{2,120}?)(?:\s|,|\.)/i\<close>,
  \<open>/(?:buyer|purchaser|acquirer)\s*:\s*([A-Z][A-Za-z0-9\s.,'&-]+)/i\<close> and
  \<open>/(?:seller|target|seller)\s*:\s*([A-Z][A-Za-z0-9\s.,'&-]+)/i\<close>
\<close>

definition targetRe :: re where
  "targetRe =
     seqs [alts (map strI [''acquisition of'', ''acquired'', ''purchase of'']), ws1,
           Cap 1 (Seq (Chr isLetter) (rrep 2 (Some 120) False (Chr dealChar))),
           alts [Chr isSpace, lit (CHR '',''), lit (CHR ''.'')]]"

definition buyerRe :: re where
  "buyerRe =
     seqs [alts (map strI [''buyer'', ''purchaser'', ''acquirer'']), ws0, lit (CHR '':''), ws0,
           Cap 1 (Seq (Chr isLetter) (rplus (Chr dealChar)))]"

definition sellerRe :: re where
  "sellerRe =
     seqs [alts (map strI [''seller'', ''target'', ''seller'']), ws0, lit (CHR '':''), ws0,
           Cap 1 (Seq (Chr isLetter) (rplus (Chr dealChar)))]"

definition dealBranch :: "jsstring \<Rightarrow> deal" where
  "dealBranch contextWindow =
     \<lparr>deal_target =
        (case rexec targetRe contextWindow of
           None \<Rightarrow> None
         | Some targetMatch \<Rightarrow>
             Some (dropLastIf commaOrDot (trim (grp contextWindow targetMatch 1)))),
      deal_buyer =
        (case rexec buyerRe contextWindow of
           None \<Rightarrow> None
         | Some buyerMatch \<Rightarrow> Some (trim (grp contextWindow buyerMatch 1))),
      deal_seller =
        (case rexec sellerRe contextWindow of
           None \<Rightarrow> None
         | Some sellerMatch \<Rightarrow> Some (trim (grp contextWindow sellerMatch 1)))\<rparr>"

definition complete :: "partnership \<Rightarrow> bool" where
  \<comment> \<open>the negation of \<open>!partnership.partnerA || !partnership.partnerB\<close>\<close>
  "complete p = (truthy (partnerA p) \<and> truthy (partnerB p))"

definition relationship ::
  "jsstring \<Rightarrow> jsstring \<Rightarrow> jsstring option \<Rightarrow> partnership option \<times> deal option" where
  \<comment> \<open>the keys \<open>partnership\<close> and \<open>deal\<close> of the output; \<open>None\<close> is a key that is not there\<close>
  "relationship fullText contextWindow companyName =
     (if rtest isPartnershipRe contextWindow then
        (if complete (partnershipBranch fullText contextWindow companyName)
         then Some (partnershipBranch fullText contextWindow companyName) else None,
         None)
      else if rtest isDealRe contextWindow then (None, Some (dealBranch contextWindow))
      else (None, None))"

subsection \<open>The two vocabularies in plain terms\<close>

text \<open>
  The keywords of the two patterns, and what it is for a text to contain one of a list
  of terms (in the sense of \<open>containsTerm\<close>, without the regular expression).
\<close>

definition partnershipTerms :: "string list" where
  "partnershipTerms =
     [''collaboration'', ''collaborat'', ''license agreement'', ''strategic collaboration'',
      ''partnership'', ''partner'']"

definition dealTerms :: "string list" where
  "dealTerms =
     [''merger'', ''acquisition'', ''acquired'', ''acquires'', ''purchase agreement'',
      ''purchase of'']"

definition containsAny :: "string list \<Rightarrow> jsstring \<Rightarrow> bool" where
  "containsAny ws s = list_ex (\<lambda>w. containsTerm (js w) s) ws"


section \<open>Properties of the chunker\<close>

subsection \<open>The loop returns, and what it returns\<close>

lemma chunkLoop_chain:
  assumes "overlap < target"
  shows "\<exists>cs. chunkLoop txt target overlap s acc = Some (acc @ cs) \<and> chain txt target overlap s cs"
proof (induction "nat (int (length txt) - s)" arbitrary: s acc rule: less_induct)
  case less
  show ?case
  proof (cases "s < int (length txt)")
    case False
    then have "chunkLoop txt target overlap s acc = Some (acc @ [])"
      by (subst chunkLoop.simps) simp
    moreover have "chain txt target overlap s []" using False by simp
    ultimately show ?thesis by blast
  next
    case True
    define c where "c = \<lparr>chunk_start = s, chunk_end = min (s + target) (int (length txt)),
           chunk_text = jsSlice txt s (min (s + target) (int (length txt)))\<rparr>"
    show ?thesis
    proof (cases "min (s + target) (int (length txt)) = int (length txt)")
      case True
      with \<open>s < int (length txt)\<close> have "chunkLoop txt target overlap s acc = Some (acc @ [c])"
        by (subst chunkLoop.simps) (simp add: c_def)
      moreover have "chain txt target overlap s [c]"
        using True \<open>s < int (length txt)\<close> by (simp add: c_def)
      ultimately show ?thesis by blast
    next
      case False
      have lt: "nat (int (length txt) - (s + (target - overlap))) < nat (int (length txt) - s)"
        using assms \<open>s < int (length txt)\<close> by linarith
      from less[OF lt, of "acc @ [c]"] obtain cs where
        cs: "chunkLoop txt target overlap (s + (target - overlap)) (acc @ [c]) = Some ((acc @ [c]) @ cs)"
          "chain txt target overlap (s + (target - overlap)) cs" by blast
      have "chunkLoop txt target overlap s acc = Some (acc @ (c # cs))"
        using False \<open>s < int (length txt)\<close> cs(1) by (subst chunkLoop.simps) (auto simp: c_def min_def split: if_splits)
      moreover have "chain txt target overlap s (c # cs)"
        using False \<open>s < int (length txt)\<close> cs(2) by (simp add: c_def)
      ultimately show ?thesis by blast
    qed
  qed
qed


lemma chain_each:
  "chain txt target overlap s cs \<Longrightarrow> overlap < target \<Longrightarrow> c \<in> set cs \<Longrightarrow>
   s \<le> chunk_start c \<and> chunk_start c < int (length txt) \<and>
   chunk_end c = min (chunk_start c + target) (int (length txt)) \<and>
   chunk_text c = jsSlice txt (chunk_start c) (chunk_end c)"
proof (induction cs arbitrary: s)
  case Nil
  then show ?case by simp
next
  case (Cons a cs)
  show ?case
  proof (cases "c = a")
    case True
    with Cons.prems(1) show ?thesis by simp
  next
    case False
    with Cons.prems have "c \<in> set cs" "cs \<noteq> []" by auto
    with Cons.prems(1) have ch: "chain txt target overlap (s + (target - overlap)) cs"
      by (simp split: if_splits)
    from Cons.IH[OF ch Cons.prems(2) \<open>c \<in> set cs\<close>] Cons.prems(2) show ?thesis by simp
  qed
qed

lemma chain_ends:
  "chain txt target overlap s cs \<Longrightarrow> 0 \<le> overlap \<Longrightarrow> cs \<noteq> [] \<Longrightarrow>
   chunk_start (hd cs) = s \<and> chunk_end (last cs) = int (length txt)"
proof (induction cs arbitrary: s)
  case Nil
  then show ?case by simp
next
  case (Cons a cs)
  then show ?case by (cases "cs = []") (auto split: if_splits)
qed

lemma chain_nonempty: "chain txt target overlap s cs \<Longrightarrow> s < int (length txt) \<Longrightarrow> cs \<noteq> []"
  by (cases cs) auto

lemma chain_consecutive:
  "chain txt target overlap s cs \<Longrightarrow> 0 < target \<Longrightarrow> overlap < target \<Longrightarrow> Suc k < length cs \<Longrightarrow>
   chunk_start (cs ! k) = s + int k * (target - overlap) \<and>
   chunk_start (cs ! Suc k) = chunk_start (cs ! k) + (target - overlap) \<and>
   chunk_end (cs ! k) = chunk_start (cs ! k) + target \<and>
   chunk_end (cs ! k) < chunk_end (cs ! Suc k)"
proof (induction cs arbitrary: s k)
  case Nil
  then show ?case by simp
next
  case (Cons a cs)
  from Cons.prems(4) obtain b bs where cs: "cs = b # bs" by (cases cs) auto
  with Cons.prems(1) have ch: "chain txt target overlap (s + (target - overlap)) cs"
    and a: "chunk_start a = s" "chunk_end a = s + target" "s + target < int (length txt)"
    by (auto split: if_splits)
  from ch cs have b: "chunk_start b = s + (target - overlap)"
    "chunk_end b = min (s + (target - overlap) + target) (int (length txt))" by auto
  show ?case
  proof (cases k)
    case 0
    with a b cs Cons.prems(2,3) show ?thesis by auto
  next
    case (Suc j)
    with Cons.prems(4) have "Suc j < length cs" by simp
    from Cons.IH[OF ch Cons.prems(2,3) this] Suc show ?thesis
      by (simp add: algebra_simps)
  qed
qed

lemma chain_cover:
  "chain txt target overlap s cs \<Longrightarrow> 0 \<le> overlap \<Longrightarrow> s \<le> i \<Longrightarrow> i < int (length txt) \<Longrightarrow>
   \<exists>c\<in>set cs. chunk_start c \<le> i \<and> i < chunk_end c"
proof (induction cs arbitrary: s)
  case Nil
  then show ?case by simp
next
  case (Cons a cs)
  show ?case
  proof (cases "i < chunk_end a")
    case True
    with Cons.prems show ?thesis by auto
  next
    case False
    with Cons.prems have ch: "chain txt target overlap (s + (target - overlap)) cs"
      and "s + (target - overlap) \<le> i"
      by (auto split: if_splits)
    from Cons.IH[OF ch Cons.prems(2) this(2) Cons.prems(4)] show ?thesis by auto
  qed
qed

lemma jsSlice_take_drop:
  "0 \<le> b \<Longrightarrow> 0 \<le> e \<Longrightarrow> jsSlice s b e = take (nat (e - b)) (drop (nat b) s)"
  unfolding jsSlice_def Let_def
  by (cases "b \<le> int (length s)"; cases "e \<le> int (length s)"; cases "b \<le> e")
     (auto simp: min_def max_def)

lemma chunkLoop_stuck:
  assumes "chunkLoop txt target overlap s acc = Some y"
  shows "\<not> (target \<le> overlap \<and> s < int (length txt) \<and> s + target < int (length txt))"
proof (rule chunkLoop.raw_induct[where P = "\<lambda>t tg ov st ch r.
          \<not> (tg \<le> ov \<and> st < int (length t) \<and> st + tg < int (length t))", OF _ assms],
       goal_cases)
  case (1 f t tg ov st ch r)
  show ?case
  proof
    assume inv: "tg \<le> ov \<and> st < int (length t) \<and> st + tg < int (length t)"
    define c where "c = \<lparr>chunk_start = st, chunk_end = min (st + tg) (int (length t)),
        chunk_text = jsSlice t st (min (st + tg) (int (length t)))\<rparr>"
    from inv have "min (st + tg) (int (length t)) \<noteq> int (length t)" by simp
    with 1(2) inv have "f t tg ov (st + (tg - ov)) (ch @ [c]) = Some r"
      unfolding c_def by (simp only: if_True if_False)
    from 1(1)[OF this] have "\<not> (tg \<le> ov \<and> st + (tg - ov) < int (length t) \<and>
        st + (tg - ov) + tg < int (length t))" .
    with inv show False by linarith
  qed
qed

lemma chunkText_diverges:
  assumes "target \<le> overlap" "0 < length t" "target < int (length t)"
  shows "chunkText t target overlap = None"
proof (cases "chunkText t target overlap")
  case None
  then show ?thesis .
next
  case (Some y)
  then have "chunkLoop t target overlap 0 [] = Some y" by (simp add: chunkText_def)
  from chunkLoop_stuck[OF this] assms show ?thesis by simp
qed

lemma chunkText_7000:
  assumes "length t = 7000"
  shows "chunkText t 3000 200 =
        Some [\<lparr>chunk_start = 0, chunk_end = 3000, chunk_text = jsSlice t 0 3000\<rparr>,
              \<lparr>chunk_start = 2800, chunk_end = 5800, chunk_text = jsSlice t 2800 5800\<rparr>,
              \<lparr>chunk_start = 5600, chunk_end = 7000, chunk_text = jsSlice t 5600 7000\<rparr>]"
proof -
  have 1: "chunkLoop t 3000 200 0 [] = chunkLoop t 3000 200 2800
      [\<lparr>chunk_start = 0, chunk_end = 3000, chunk_text = jsSlice t 0 3000\<rparr>]"
    by (subst chunkLoop.simps) (simp add: assms)
  have 2: "chunkLoop t 3000 200 2800 [\<lparr>chunk_start = 0, chunk_end = 3000, chunk_text = jsSlice t 0 3000\<rparr>]
     = chunkLoop t 3000 200 5600
      [\<lparr>chunk_start = 0, chunk_end = 3000, chunk_text = jsSlice t 0 3000\<rparr>,
       \<lparr>chunk_start = 2800, chunk_end = 5800, chunk_text = jsSlice t 2800 5800\<rparr>]"
    by (subst chunkLoop.simps) (simp add: assms)
  have 3: "chunkLoop t 3000 200 5600
      [\<lparr>chunk_start = 0, chunk_end = 3000, chunk_text = jsSlice t 0 3000\<rparr>,
       \<lparr>chunk_start = 2800, chunk_end = 5800, chunk_text = jsSlice t 2800 5800\<rparr>]
     = Some [\<lparr>chunk_start = 0, chunk_end = 3000, chunk_text = jsSlice t 0 3000\<rparr>,
              \<lparr>chunk_start = 2800, chunk_end = 5800, chunk_text = jsSlice t 2800 5800\<rparr>,
              \<lparr>chunk_start = 5600, chunk_end = 7000, chunk_text = jsSlice t 5600 7000\<rparr>]"
    by (subst chunkLoop.simps) (simp add: assms)
  show ?thesis unfolding chunkText_def 1 2 3 ..
qed

text \<open>
  Claim C1. For every text and every configuration with \<open>0 < targetSize\<close> and
  \<open>0 \<le> overlap < targetSize\<close>, \<open>chunkText\<close> returns a chunk list such that: every chunk
  spans \<open>[start, min (start + targetSize) (length text))\<close> and carries that slice of the
  text; every offset of \<open>[0, length text)\<close> lies in some chunk, the first chunk starts at 0,
  the last one ends at the end of the text and each chunk starts no later than its
  predecessor ends (no gaps); two consecutive chunks share exactly \<open>overlap\<close> offsets; and
  a text of 7000 characters with \<open>targetSize = 3000\<close>, \<open>overlap = 200\<close> gives exactly the three
  chunks that start at 0, 2800 and 5600.
\<close>

theorem chunkText_coverage:
  assumes "0 < target" "0 \<le> overlap" "overlap < target"
  shows "\<exists>cs. chunkText t target overlap = Some cs \<and>
    (\<forall>c\<in>set cs. 0 \<le> chunk_start c \<and>
        chunk_end c = min (chunk_start c + target) (int (length t)) \<and>
        chunk_text c = take (nat (chunk_end c - chunk_start c)) (drop (nat (chunk_start c)) t)) \<and>
    (\<forall>i. 0 \<le> i \<and> i < int (length t) \<longrightarrow> (\<exists>c\<in>set cs. chunk_start c \<le> i \<and> i < chunk_end c)) \<and>
    (cs \<noteq> [] \<longrightarrow> chunk_start (hd cs) = 0 \<and> chunk_end (last cs) = int (length t)) \<and>
    (\<forall>k. Suc k < length cs \<longrightarrow>
        chunk_start (cs ! k) < chunk_start (cs ! Suc k) \<and>
        chunk_start (cs ! Suc k) \<le> chunk_end (cs ! k) \<and>
        chunk_end (cs ! k) < chunk_end (cs ! Suc k) \<and>
        chunk_end (cs ! k) - chunk_start (cs ! Suc k) = overlap) \<and>
    (length t = 7000 \<and> target = 3000 \<and> overlap = 200 \<longrightarrow>
        map chunk_start cs = [0, 2800, 5600])"
proof -
  from chunkLoop_chain[OF assms(3), of t 0 "[]"] obtain cs where
    run: "chunkText t target overlap = Some cs" and ch: "chain t target overlap 0 cs"
    by (auto simp: chunkText_def)
  have each: "\<forall>c\<in>set cs. 0 \<le> chunk_start c \<and>
        chunk_end c = min (chunk_start c + target) (int (length t)) \<and>
        chunk_text c = take (nat (chunk_end c - chunk_start c)) (drop (nat (chunk_start c)) t)"
  proof
    fix c assume "c \<in> set cs"
    from chain_each[OF ch assms(3) this]
    have c: "0 \<le> chunk_start c" "chunk_start c < int (length t)"
      "chunk_end c = min (chunk_start c + target) (int (length t))"
      "chunk_text c = jsSlice t (chunk_start c) (chunk_end c)" by auto
    with assms(1) have "0 \<le> chunk_end c" by simp
    with c show "0 \<le> chunk_start c \<and>
        chunk_end c = min (chunk_start c + target) (int (length t)) \<and>
        chunk_text c = take (nat (chunk_end c - chunk_start c)) (drop (nat (chunk_start c)) t)"
      by (simp add: jsSlice_take_drop)
  qed
  have cover: "\<forall>i. 0 \<le> i \<and> i < int (length t) \<longrightarrow>
      (\<exists>c\<in>set cs. chunk_start c \<le> i \<and> i < chunk_end c)"
    using chain_cover[OF ch assms(2)] by blast
  have ends: "cs \<noteq> [] \<longrightarrow> chunk_start (hd cs) = 0 \<and> chunk_end (last cs) = int (length t)"
    using chain_ends[OF ch assms(2)] by blast
  have consec: "\<forall>k. Suc k < length cs \<longrightarrow>
        chunk_start (cs ! k) < chunk_start (cs ! Suc k) \<and>
        chunk_start (cs ! Suc k) \<le> chunk_end (cs ! k) \<and>
        chunk_end (cs ! k) < chunk_end (cs ! Suc k) \<and>
        chunk_end (cs ! k) - chunk_start (cs ! Suc k) = overlap"
  proof (intro allI impI)
    fix k assume "Suc k < length cs"
    from chain_consecutive[OF ch assms(1,3) this] assms
    show "chunk_start (cs ! k) < chunk_start (cs ! Suc k) \<and>
        chunk_start (cs ! Suc k) \<le> chunk_end (cs ! k) \<and>
        chunk_end (cs ! k) < chunk_end (cs ! Suc k) \<and>
        chunk_end (cs ! k) - chunk_start (cs ! Suc k) = overlap"
      by simp
  qed
  have scen: "length t = 7000 \<and> target = 3000 \<and> overlap = 200 \<longrightarrow>
      map chunk_start cs = [0, 2800, 5600]"
  proof
    assume h: "length t = 7000 \<and> target = 3000 \<and> overlap = 200"
    then have "chunkText t target overlap = chunkText t 3000 200" by simp
    also from h have "\<dots> =
        Some [\<lparr>chunk_start = 0, chunk_end = 3000, chunk_text = jsSlice t 0 3000\<rparr>,
              \<lparr>chunk_start = 2800, chunk_end = 5800, chunk_text = jsSlice t 2800 5800\<rparr>,
              \<lparr>chunk_start = 5600, chunk_end = 7000, chunk_text = jsSlice t 5600 7000\<rparr>]"
      by (simp add: chunkText_7000)
    finally have "cs = [\<lparr>chunk_start = 0, chunk_end = 3000, chunk_text = jsSlice t 0 3000\<rparr>,
              \<lparr>chunk_start = 2800, chunk_end = 5800, chunk_text = jsSlice t 2800 5800\<rparr>,
              \<lparr>chunk_start = 5600, chunk_end = 7000, chunk_text = jsSlice t 5600 7000\<rparr>]"
      using run by simp
    then show "map chunk_start cs = [0, 2800, 5600]" by simp
  qed
  show ?thesis
    by (rule exI[of _ cs], intro conjI)
       (fact run, fact each, fact cover, fact ends, fact consec, fact scen)
qed

theorem chunkText_coverage_witness:
  "\<exists>cs. chunkText (replicate 7000 (120::nat)) 3000 200 = Some cs \<and>
     map chunk_start cs = [0, 2800, 5600] \<and>
     chunk_end (last cs) = 7000 \<and>
     (\<exists>c\<in>set cs. chunk_start c \<le> 2900 \<and> 2900 < chunk_end c) \<and>
     chunk_end (cs ! 0) - chunk_start (cs ! 1) = 200"
proof -
  let ?t = "replicate 7000 (120::nat)"
  have pre: "(0::int) < 3000" "(0::int) \<le> 200" "(200::int) < 3000" by simp_all
  from chunkText_coverage[OF pre, of ?t]
  obtain cs where cs: "chunkText ?t 3000 200 = Some cs"
    and cover: "\<forall>i. 0 \<le> i \<and> i < int (length ?t) \<longrightarrow>
        (\<exists>c\<in>set cs. chunk_start c \<le> i \<and> i < chunk_end c)"
    and ends: "cs \<noteq> [] \<longrightarrow> chunk_start (hd cs) = 0 \<and> chunk_end (last cs) = int (length ?t)"
    and consec: "\<forall>k. Suc k < length cs \<longrightarrow>
        chunk_start (cs ! k) < chunk_start (cs ! Suc k) \<and>
        chunk_start (cs ! Suc k) \<le> chunk_end (cs ! k) \<and>
        chunk_end (cs ! k) < chunk_end (cs ! Suc k) \<and>
        chunk_end (cs ! k) - chunk_start (cs ! Suc k) = 200"
    and scen: "length ?t = 7000 \<and> (3000::int) = 3000 \<and> (200::int) = 200 \<longrightarrow>
        map chunk_start cs = [0, 2800, 5600]"
    by (elim exE conjE) (rule that)
  from scen have starts: "map chunk_start cs = [0, 2800, 5600]" by simp
  then have "length (map chunk_start cs) = 3" by simp
  then have len: "length cs = 3" by simp
  then have ne: "cs \<noteq> []" by auto
  from ends ne have e: "chunk_end (last cs) = 7000" by simp
  from cover have c: "\<exists>c\<in>set cs. chunk_start c \<le> 2900 \<and> 2900 < chunk_end c" by simp
  from consec len have o: "chunk_end (cs ! 0) - chunk_start (cs ! Suc 0) = 200" by simp
  from o have o1: "chunk_end (cs ! 0) - chunk_start (cs ! 1) = 200" by (simp only: One_nat_def)
  show ?thesis
    by (rule exI[of _ cs], intro conjI) (fact cs, fact starts, fact e, fact c, fact o1)
qed

text \<open>
  Claim C2. \<open>chunkText\<close> has no check of its configuration. With \<open>overlap \<ge> targetSize\<close>
  and a text longer than \<open>targetSize\<close> the loop never ends (here \<open>abcd\<close> with
  \<open>targetSize = 2\<close>, \<open>overlap = 2\<close>); with a text that fits one chunk it returns that
  chunk instead of an error.
\<close>

theorem chunkText_overlap_not_rejected:
  "chunkText (js ''abcd'') 2 2 = None \<and>
   chunkText (js ''ab'') 2 2 = Some [\<lparr>chunk_start = 0, chunk_end = 2, chunk_text = js ''ab''\<rparr>]"
proof
  show "chunkText (js ''abcd'') 2 2 = None"
    by (rule chunkText_diverges) (simp_all add: js_def)
  show "chunkText (js ''ab'') 2 2 = Some [\<lparr>chunk_start = 0, chunk_end = 2, chunk_text = js ''ab''\<rparr>]"
    unfolding chunkText_def by (subst chunkLoop.simps) (simp add: jsSlice_def js_def)
qed

section \<open>Properties of the evidence locator\<close>







lemma placeholder_first:
  assumes "chunks \<noteq> []" "file_name (hd chunks) \<noteq> []"
  shows "sourceFile (placeholder chunks m) = file_name (hd chunks)"
    and "snippet (placeholder chunks m) = take 200 (file_text (hd chunks))"
    and "sourceSection (placeholder chunks m) = []"
proof -
  from assms(1) obtain c cs where c: "chunks = c # cs" by (cases chunks) simp_all
  with assms(2) have n: "file_name c \<noteq> []" by simp
  show "sourceFile (placeholder chunks m) = file_name (hd chunks)"
    using n by (simp add: c placeholder_def firstFile_def)
  show "snippet (placeholder chunks m) = take 200 (file_text (hd chunks))"
    by (simp add: c placeholder_def firstText_def jsSlice_take_drop)
  show "sourceSection (placeholder chunks m) = []"
    by (simp add: placeholder_def)
qed

lemma placeholder_empty:
  "sourceFile (placeholder [] m) = js ''unknown''"
  "snippet (placeholder [] m) = []"
  "sourceSection (placeholder [] m) = []"
  by (simp_all add: placeholder_def firstFile_def firstText_def jsSlice_def)


lemma searchTiers_empty: "searchTiers norm [] m = Inr (placeholder [] m)"
  by (simp add: searchTiers_def)




lemmas eval_defs = js_def rtest_def rexec_def seqs_def str_def strI_def lit_def litI_def
  canonicalize_def isWordChar_def isSpace_def isDigit_def ropt_def rstar_def rplus_def ws0_def
  ws1_def trim_def splitWs_def matchIndex_def matchEnd_def matched_def capture_def

subsection \<open>Sample runs\<close>

lemma sample_suspicious: "suspicious (trim (js ''unknown a b c d e f g h''))"
  by (simp add: suspicious_def boilerplateRe_def eval_defs)




lemma sample_not_suspicious: "\<not> suspicious (trim (js ''ab''))"
  by (simp add: suspicious_def js_def trim_def splitWs_def isSpace_def)

subsection \<open>The tiers of \<open>findEvidence\<close>\<close>

lemma firstFile_names:
  "map file_name chunks' = map file_name chunks \<Longrightarrow> firstFile chunks' = firstFile chunks"
  by (cases chunks; cases chunks') (simp_all add: firstFile_def)

lemma splitWs_empty: "splitWs (trim []) = [[]]"
  by (simp add: trim_def splitWs_def)


text \<open>
  Claim C4. For a \<open>null\<close> or empty candidate and a chunk list that is not empty (whose
  first chunk has a file name, as every chunk that \<open>loadChunks\<close> reads has),
  \<open>findEvidence\<close> returns a record that cites the first chunk and whose snippet is the
  first 200 code units of that chunk's text.
\<close>

theorem findEvidence_empty_candidate:
  assumes "searchText = None \<or> searchText = Some []"
    and "chunks \<noteq> []" and "file_name (hd chunks) \<noteq> []"
  shows "\<exists>ev. findEvidence searchText chunks m = Inr ev \<and>
     sourceFile ev = file_name (hd chunks) \<and>
     selector ev = js ''chunk:'' @ file_name (hd chunks) \<and>
     snippet ev = take 200 (file_text (hd chunks))"
proof -
  from assms(1) have "findEvidence searchText chunks m = Inr (placeholder chunks m)"
    by (auto simp: findEvidence_def)
  moreover have "sourceFile (placeholder chunks m) = file_name (hd chunks)"
    and "snippet (placeholder chunks m) = take 200 (file_text (hd chunks))"
    using placeholder_first[OF assms(2,3)] by simp_all
  moreover from this(1) have "selector (placeholder chunks m) = js ''chunk:'' @ file_name (hd chunks)"
    by (simp add: placeholder_def)
  ultimately show ?thesis by simp
qed

theorem findEvidence_empty_candidate_witness:
  "\<exists>ev. findEvidence (Some [])
       [\<lparr>file_name = js ''chunk_0000.txt'', file_text = replicate 250 (120::nat)\<rparr>,
        \<lparr>file_name = js ''chunk_0001.txt'', file_text = replicate 10 (121::nat)\<rparr>]
       \<lparr>primary_url = None\<rparr> = Inr ev \<and>
     sourceFile ev = js ''chunk_0000.txt'' \<and>
     selector ev = js ''chunk:'' @ js ''chunk_0000.txt'' \<and>
     snippet ev = replicate 200 (120::nat)"
  using findEvidence_empty_candidate[of "Some []"
      "[\<lparr>file_name = js ''chunk_0000.txt'', file_text = replicate 250 (120::nat)\<rparr>,
        \<lparr>file_name = js ''chunk_0001.txt'', file_text = replicate 10 (121::nat)\<rparr>]"
      "\<lparr>primary_url = None\<rparr>"]
  by (simp add: js_def)

text \<open>
  Claim C10, as the claim states it, fails: with no chunks, a candidate that the
  suspicious-text tier handles gets the marker as its snippet, not the empty string.
\<close>

theorem findEvidence_no_chunks_counterexample:
  "findEvidence (Some (js ''unknown a b c d e f g h'')) [] \<lparr>primary_url = None\<rparr> =
     Inr \<lparr>sourceFile = js ''unknown'', sourceUrl = None, sourceSection = [],
          selector = js ''chunk:'' @ js ''unknown'',
          snippet = js ''Invalid search text - no evidence found''\<rparr> \<and>
   js ''Invalid search text - no evidence found'' \<noteq> []"
proof
  have ne: "js ''unknown a b c d e f g h'' \<noteq> []" by (simp add: js_def)
  show "findEvidence (Some (js ''unknown a b c d e f g h'')) [] \<lparr>primary_url = None\<rparr> =
     Inr \<lparr>sourceFile = js ''unknown'', sourceUrl = None, sourceSection = [],
          selector = js ''chunk:'' @ js ''unknown'',
          snippet = js ''Invalid search text - no evidence found''\<rparr>"
    unfolding findEvidence_def
    by (simp only: option.case if_False if_True ne sample_suspicious invalidSearch_def
        firstFile_def list.case noEvidenceMarker_def manifest.simps)
  show "js ''Invalid search text - no evidence found'' \<noteq> []" by (simp add: js_def)
qed

text \<open>
  Claim C10, amended. With an empty chunk list \<open>findEvidence\<close> returns a record for every
  candidate, \<open>null\<close> included: its \<open>sourceFile\<close> is ``unknown'', its \<open>sourceSection\<close> is
  empty, and its snippet is empty unless the candidate is handled by the suspicious-text
  tier, where it is the ``no evidence found'' marker.
\<close>

theorem findEvidence_no_chunks:
  "\<exists>ev. findEvidence searchText [] m = Inr ev \<and>
      sourceFile ev = js ''unknown'' \<and> sourceSection ev = [] \<and>
      snippet ev = (if (case searchText of None \<Rightarrow> False | Some t \<Rightarrow> t \<noteq> [] \<and> suspicious (trim t))
                    then noEvidenceMarker else [])"
proof (cases searchText)
  case None
  then show ?thesis by (simp add: findEvidence_def placeholder_empty)
next
  case (Some t)
  show ?thesis
  proof (cases "t = []")
    case True
    with Some show ?thesis by (simp add: findEvidence_def placeholder_empty)
  next
    case False
    show ?thesis
    proof (cases "suspicious (trim t)")
      case True
      with Some False show ?thesis
        by (simp add: findEvidence_def invalidSearch_def firstFile_def)
    next
      case nots: False
      with Some False show ?thesis
        by (simp add: findEvidence_def searchTiers_empty placeholder_empty)
    qed
  qed
qed

theorem findEvidence_no_chunks_witness:
  "\<exists>ev. findEvidence (Some (js ''ab'')) [] \<lparr>primary_url = None\<rparr> = Inr ev \<and>
      sourceFile ev = js ''unknown'' \<and> sourceSection ev = [] \<and> snippet ev = []"
proof -
  have ne: "js ''ab'' \<noteq> []" by (simp add: js_def)
  from findEvidence_no_chunks[of "Some (js ''ab'')" "\<lparr>primary_url = None\<rparr>"]
  show ?thesis using sample_not_suspicious ne by simp
qed




section \<open>The suspicious-text tier\<close>

subsection \<open>Case folding of the characters of a term\<close>

lemma upperTable_high: "\<forall>row\<in>set upperTable. 128 \<le> snd (snd (snd row))"
  by (simp add: upperTable_def)

lemma caseLookup_upper_high: "128 \<le> c \<Longrightarrow> 128 \<le> caseLookup upperTable c"
proof -
  assume c: "128 \<le> c"
  show ?thesis
  proof (cases "find (\<lambda>(lo, hi, step, tgt). lo \<le> c \<and> c \<le> hi \<and> (c - lo) mod step = 0) upperTable")
    case None
    with c show ?thesis by (simp add: caseLookup_def)
  next
    case (Some row)
    then have "row \<in> set upperTable" by (auto simp: find_Some_iff intro: nth_mem)
    with upperTable_high have "128 \<le> snd (snd (snd row))" by blast
    with Some show ?thesis by (cases row) (simp add: caseLookup_def)
  qed
qed

lemma canonicalize_term_char:
  assumes "(97 \<le> d \<and> d \<le> 122) \<or> d = 32"
  shows "canonicalize c = canonicalize d \<longleftrightarrow> sameLetter c d"
proof (cases "c < 128")
  case True
  with assms show ?thesis by (auto simp: canonicalize_def sameLetter_def)
next
  case False
  then have "128 \<le> caseLookup upperTable c" by (intro caseLookup_upper_high) simp
  with False assms show ?thesis by (auto simp: canonicalize_def sameLetter_def)
qed

lemma sameLetter_wordChar:
  "97 \<le> d \<Longrightarrow> d \<le> 122 \<Longrightarrow> sameLetter c d \<Longrightarrow> isWordChar c"
  by (auto simp: sameLetter_def isWordChar_def)

lemma litI_step:
  "matcher (litI a) k (i, p, r, c) =
     (case r of [] \<Rightarrow> None
      | x # xs \<Rightarrow> if canonicalize x = canonicalize (of_char a) then k (i + 1, Some x, xs, c) else None)"
  by (cases r) (simp_all add: litI_def)

lemma strI_Cons: "strI (a # w) = Seq (litI a) (strI w)"
  by (simp add: strI_def seqs_def)

lemma strI_Nil: "strI [] = Eps"
  by (simp add: strI_def seqs_def)

lemma strI_match:
  "matcher (strI w) k (i, p, r, c) =
     (if length w \<le> length r \<and> list_all2 (\<lambda>x a. canonicalize x = canonicalize (of_char a)) (take (length w) r) w
      then k (i + length w, (if w = [] then p else Some (r ! (length w - 1))), drop (length w) r, c)
      else None)"
proof (induction w arbitrary: i p r)
  case Nil
  show ?case by (simp add: strI_Nil)
next
  case (Cons a w)
  show ?case
  proof (cases r)
    case Nil
    then show ?thesis by (simp add: strI_Cons litI_step)
  next
    case (Cons x xs)
    show ?thesis
    proof (cases "canonicalize x = canonicalize (of_char a)")
      case False
      with Cons show ?thesis by (simp add: strI_Cons litI_step)
    next
      case True
      have "matcher (strI (a # w)) k (i, p, r, c) = matcher (strI w) k (i + 1, Some x, xs, c)"
        using Cons True by (simp add: strI_Cons litI_step)
      also note Cons.IH[of "i + 1" "Some x" xs]
      finally show ?thesis using Cons True
        by (cases w) (simp_all add: add.assoc)
    qed
  qed
qed

lemma alts_None:
  "matcher (alts rs) k (i, p, r, c) = None \<longleftrightarrow> (\<forall>a\<in>set rs. matcher a k (i, p, r, c) = None)"
proof (induction rs rule: alts.induct)
  case 1
  show ?case by (cases r) simp_all
next
  case (2 a)
  show ?case by simp
next
  case (3 a b rs)
  then show ?case by (auto split: option.splits)
qed

lemma word_alts_match:
  assumes "\<forall>w\<in>set ws. w \<noteq> []"
  shows "matcher (seqs [WordB, Cap n (alts (map strI ws)), WordB]) Some (i, p, r, []) \<noteq> None \<longleftrightarrow>
     isWordBoundary p r \<and>
     (\<exists>w\<in>set ws. foldsTo r w \<and>
        isWordBoundary (Some (r ! (length w - 1))) (drop (length w) r))"
proof -
  let ?k = "\<lambda>y. case y of (j, q, s, d) \<Rightarrow>
      matcher (Seq WordB Eps) Some (j, q, s, (n, i, j) # d)"
  have k: "?k (j, q, s, d) \<noteq> None \<longleftrightarrow> isWordBoundary q s" for j q s d
    by simp
  have fold: "matcher (strI w) k' (i, p, r, []) =
      (if foldsTo r w
       then k' (i + length w, (if w = [] then p else Some (r ! (length w - 1))), drop (length w) r, [])
       else None)" for w k'
    unfolding strI_match foldsTo_def ..
  have one: "matcher (strI w) ?k (i, p, r, []) \<noteq> None \<longleftrightarrow>
      foldsTo r w \<and> isWordBoundary (Some (r ! (length w - 1))) (drop (length w) r)"
    if "w \<noteq> []" for w
    using that by (simp add: fold)
  have "matcher (seqs [WordB, Cap n (alts (map strI ws)), WordB]) Some (i, p, r, []) =
      (if isWordBoundary p r then matcher (alts (map strI ws)) ?k (i, p, r, []) else None)"
    by (simp add: seqs_def)
  moreover have "matcher (alts (map strI ws)) ?k (i, p, r, []) \<noteq> None \<longleftrightarrow>
      (\<exists>w\<in>set ws. matcher (strI w) ?k (i, p, r, []) \<noteq> None)"
    using alts_None[of "map strI ws" ?k i p r "[]"] by auto
  ultimately show ?thesis using assms one by auto
qed

lemma searchFrom_Some:
  "searchFrom re i p s \<noteq> None \<longleftrightarrow>
     (\<exists>j\<le>length s. matcher re Some (i + j, prevAt p s j, drop j s, []) \<noteq> None)"
proof (induction s arbitrary: i p)
  case Nil
  show ?case by (simp add: prevAt_def split: option.splits)
next
  case (Cons x xs)
  have "searchFrom re i p (x # xs) \<noteq> None \<longleftrightarrow>
      matcher re Some (i, p, x # xs, []) \<noteq> None \<or> searchFrom re (i + 1) (Some x) xs \<noteq> None"
    by (simp split: option.splits)
  also have "searchFrom re (i + 1) (Some x) xs \<noteq> None \<longleftrightarrow>
      (\<exists>j\<le>length xs. matcher re Some (i + 1 + j, prevAt (Some x) xs j, drop j xs, []) \<noteq> None)"
    by (rule Cons.IH)
  also have "\<dots> \<longleftrightarrow>
      (\<exists>j\<le>length xs. matcher re Some (i + Suc j, prevAt p (x # xs) (Suc j), drop (Suc j) (x # xs), []) \<noteq> None)"
  proof -
    have "prevAt (Some x) xs j = prevAt p (x # xs) (Suc j)" for j
      by (cases j) (simp_all add: prevAt_def)
    then show ?thesis by simp
  qed
  finally have "searchFrom re i p (x # xs) \<noteq> None \<longleftrightarrow>
      matcher re Some (i + 0, prevAt p (x # xs) 0, drop 0 (x # xs), []) \<noteq> None \<or>
      (\<exists>j\<le>length xs. matcher re Some (i + Suc j, prevAt p (x # xs) (Suc j), drop (Suc j) (x # xs), []) \<noteq> None)"
    by (simp add: prevAt_def)
  also have "\<dots> \<longleftrightarrow> (\<exists>j\<le>length (x # xs).
      matcher re Some (i + j, prevAt p (x # xs) j, drop j (x # xs), []) \<noteq> None)"
  proof
    assume "matcher re Some (i + 0, prevAt p (x # xs) 0, drop 0 (x # xs), []) \<noteq> None \<or>
      (\<exists>j\<le>length xs. matcher re Some (i + Suc j, prevAt p (x # xs) (Suc j), drop (Suc j) (x # xs), []) \<noteq> None)"
    then show "\<exists>j\<le>length (x # xs).
      matcher re Some (i + j, prevAt p (x # xs) j, drop j (x # xs), []) \<noteq> None"
    proof
      assume "matcher re Some (i + 0, prevAt p (x # xs) 0, drop 0 (x # xs), []) \<noteq> None"
      then show ?thesis by (intro exI[of _ 0]) simp
    next
      assume "\<exists>j\<le>length xs. matcher re Some (i + Suc j, prevAt p (x # xs) (Suc j), drop (Suc j) (x # xs), []) \<noteq> None"
      then obtain j where "j \<le> length xs"
        "matcher re Some (i + Suc j, prevAt p (x # xs) (Suc j), drop (Suc j) (x # xs), []) \<noteq> None"
        by blast
      then show ?thesis by (intro exI[of _ "Suc j"]) simp
    qed
  next
    assume "\<exists>j\<le>length (x # xs).
      matcher re Some (i + j, prevAt p (x # xs) j, drop j (x # xs), []) \<noteq> None"
    then obtain j where j: "j \<le> length (x # xs)"
      "matcher re Some (i + j, prevAt p (x # xs) j, drop j (x # xs), []) \<noteq> None" by blast
    show "matcher re Some (i + 0, prevAt p (x # xs) 0, drop 0 (x # xs), []) \<noteq> None \<or>
      (\<exists>j\<le>length xs. matcher re Some (i + Suc j, prevAt p (x # xs) (Suc j), drop (Suc j) (x # xs), []) \<noteq> None)"
    proof (cases j)
      case 0
      with j show ?thesis by simp
    next
      case (Suc j')
      with j have "j' \<le> length xs"
        "matcher re Some (i + Suc j', prevAt p (x # xs) (Suc j'), drop (Suc j') (x # xs), []) \<noteq> None"
        by simp_all
      then show ?thesis by blast
    qed
  qed
  finally show ?case .
qed

lemma splitFrom_length:
  "s = [] \<or> \<not> isSpace (last s) \<Longrightarrow> length (splitFrom cur s) = Suc (countWords True s)"
proof (induction cur s rule: splitFrom.induct)
  case (1 cur)
  show ?case by simp
next
  case (2 cur c cs)
  show ?case
  proof (cases "isSpace c")
    case False
    from "2.prems" have "cs = [] \<or> \<not> isSpace (last cs)" by (cases cs) auto
    with "2.IH"(2) False show ?thesis by simp
  next
    case True
    with "2.prems" have cs: "cs \<noteq> []" "\<not> isSpace (last cs)" by (auto split: if_splits)
    let ?d = "dropWhile isSpace cs"
    from cs have "last cs \<in> set cs" by simp
    with cs(2) have dne: "?d \<noteq> []" by (auto simp: dropWhile_eq_Nil_conv)
    have "last (takeWhile isSpace cs @ ?d) = last ?d" using dne by (rule last_appendR)
    then have "last ?d = last cs" by simp
    with cs dne have "?d = [] \<or> \<not> isSpace (last ?d)" by simp
    from "2.IH"(1)[OF True this] have IH: "length (splitFrom [] ?d) = Suc (countWords True ?d)" .
    have skip: "countWords False xs = countWords False (dropWhile isSpace xs)" for xs
      by (induction xs) simp_all
    from dne obtain d ds where d: "?d = d # ds" by (cases ?d) auto
    from hd_dropWhile[OF dne] d have "\<not> isSpace d" by simp
    with d have "countWords False ?d = Suc (countWords True ?d)" by simp
    with skip[of cs] have "countWords True (c # cs) = Suc (countWords True ?d)"
      using True by simp
    with IH True show ?thesis by simp
  qed
qed


lemma countWords_skip: "countWords False (dropWhile isSpace xs) = countWords False xs"
  by (induction xs) simp_all

lemma countWords_spaces: "\<forall>x\<in>set sp. isSpace x \<Longrightarrow> countWords b (xs @ sp) = countWords b xs"
proof (induction xs arbitrary: b)
  case Nil
  then show ?case by (induction sp arbitrary: b) simp_all
next
  case (Cons x xs)
  then show ?case by simp
qed

lemma trim_decomp: "dropWhile isSpace s = trim s @ rev (takeWhile isSpace (rev (dropWhile isSpace s)))"
proof -
  let ?d = "dropWhile isSpace s"
  have "rev (takeWhile isSpace (rev ?d) @ dropWhile isSpace (rev ?d)) = rev (rev ?d)"
    by (simp only: takeWhile_dropWhile_id)
  then show ?thesis by (simp only: rev_append rev_rev_ident trim_def)
qed

lemma wordCount_trim: "wordCount (trim s) = wordCount s"
proof -
  have "\<forall>x\<in>set (rev (takeWhile isSpace (rev (dropWhile isSpace s)))). isSpace x"
    by (auto dest: set_takeWhileD)
  from countWords_spaces[OF this, of False "trim s"] trim_decomp[of s]
  have "countWords False (dropWhile isSpace s) = countWords False (trim s)" by simp
  then show ?thesis by (simp add: wordCount_def countWords_skip)
qed

lemma trim_ends: "trim s = [] \<or> (\<not> isSpace (hd (trim s)) \<and> \<not> isSpace (last (trim s)))"
proof (cases "trim s = []")
  case True
  then show ?thesis by simp
next
  case False
  let ?d = "dropWhile isSpace s"
  let ?e = "dropWhile isSpace (rev ?d)"
  from False have e: "?e \<noteq> []" by (simp add: trim_def)
  from hd_dropWhile[OF e] have "\<not> isSpace (hd ?e)" .
  with e have l: "\<not> isSpace (last (trim s))" by (simp add: trim_def last_rev)
  have d: "?d \<noteq> []"
  proof
    assume "?d = []"
    with e show False by simp
  qed
  from hd_dropWhile[OF d] have hd: "\<not> isSpace (hd ?d)" .
  from trim_decomp[of s] False have "hd ?d = hd (trim s)"
    by (metis hd_append2)
  with hd l show ?thesis by simp
qed

lemma splitWs_wordCount: "8 < length (splitWs (trim t)) \<longleftrightarrow> 8 < wordCount t"
proof (cases "trim t")
  case Nil
  with wordCount_trim[of t] show ?thesis by (simp add: splitWs_def wordCount_def)
next
  case (Cons d ds)
  with trim_ends[of t] have ends: "\<not> isSpace d" "\<not> isSpace (last (d # ds))" by simp_all
  then have "length (splitFrom [] (d # ds)) = Suc (countWords True (d # ds))"
    by (intro splitFrom_length) simp
  with ends(1) have "length (splitWs (trim t)) = wordCount (trim t)"
    by (simp add: splitWs_def wordCount_def Cons)
  with wordCount_trim[of t] show ?thesis by simp
qed

lemma list_all2_cong_right:
  "(\<And>x a. a \<in> set w \<Longrightarrow> P x a = Q x a) \<Longrightarrow> list_all2 P xs w = list_all2 Q xs w"
  by (auto simp: list_all2_conv_all_nth)

lemma foldsTo_sameLetter:
  assumes "plainTerm w" "j \<le> length s"
  shows "foldsTo (drop j s) w \<longleftrightarrow>
     j + length w \<le> length s \<and> list_all2 sameLetter (take (length w) (drop j s)) (js w)"
proof -
  have "list_all2 (\<lambda>x a. canonicalize x = canonicalize (of_char a)) xs w =
      list_all2 (\<lambda>x a. sameLetter x (of_char a)) xs w" for xs
  proof (rule list_all2_cong_right)
    fix x a assume "a \<in> set w"
    with assms(1) have "(97 \<le> (of_char a :: nat) \<and> (of_char a :: nat) \<le> 122) \<or> (of_char a :: nat) = 32"
      by (simp add: plainTerm_def)
    then show "(canonicalize x = canonicalize (of_char a)) = sameLetter x (of_char a)"
      by (rule canonicalize_term_char)
  qed
  moreover from assms(2) have "length w \<le> length (drop j s) \<longleftrightarrow> j + length w \<le> length s"
    by auto
  ultimately show ?thesis by (simp add: foldsTo_def js_def list_all2_map2)
qed

lemma term_ends:
  assumes w: "plainTerm w" and fit: "j + length w \<le> length s"
    and m: "list_all2 sameLetter (take (length w) (drop j s)) (js w)"
  shows "j < length s" and "isWordChar (s ! j)" and "isWordChar (s ! (j + length w - 1))"
proof -
  from w have ne: "w \<noteq> []" by (simp add: plainTerm_def)
  then have n: "0 < length w" by simp
  from n fit show jl: "j < length s" by arith
  from n have "0 < length (js w)" by (simp add: js_def)
  from list_all2_nthD2[OF m this] n fit ne
  have "sameLetter (s ! j) (of_char (hd w))"
    by (simp add: js_def hd_conv_nth)
  with w show "isWordChar (s ! j)"
    by (intro sameLetter_wordChar[of "of_char (hd w)"]) (simp_all add: plainTerm_def)
  from n have "length w - 1 < length (js w)" by (simp add: js_def)
  from list_all2_nthD2[OF m this] n fit ne
  have "sameLetter (s ! (j + length w - 1)) (of_char (last w))"
    by (simp add: js_def last_conv_nth)
  with w show "isWordChar (s ! (j + length w - 1))"
    by (intro sameLetter_wordChar[of "of_char (last w)"]) (simp_all add: plainTerm_def)
qed

lemma boundary_before:
  assumes "j < length s" "isWordChar (s ! j)"
  shows "isWordBoundary (prevAt None s j) (drop j s) \<longleftrightarrow> j = 0 \<or> \<not> isWordChar (s ! (j - 1))"
proof -
  from assms(1) have "drop j s = s ! j # drop (Suc j) s" by (rule Cons_nth_drop_Suc[symmetric])
  then have "isWordBoundary (prevAt None s j) (drop j s) =
      isWordBoundary (prevAt None s j) (s ! j # drop (Suc j) s)" by (simp only:)
  with assms(2) show ?thesis by (cases "j = 0") (simp_all add: prevAt_def)
qed

lemma boundary_after:
  assumes "e \<le> length s" "isWordChar y"
  shows "isWordBoundary (Some y) (drop e s) \<longleftrightarrow> e = length s \<or> \<not> isWordChar (s ! e)"
proof (cases "e = length s")
  case True
  with assms(2) show ?thesis by simp
next
  case False
  with assms(1) have "e < length s" by simp
  then have "drop e s = s ! e # drop (Suc e) s" by (rule Cons_nth_drop_Suc[symmetric])
  then have "isWordBoundary (Some y) (drop e s) = isWordBoundary (Some y) (s ! e # drop (Suc e) s)"
    by (simp only:)
  with assms(2) False show ?thesis by simp
qed

lemma term_match:
  assumes w: "plainTerm w" and j: "j \<le> length s"
  shows "(isWordBoundary (prevAt None s j) (drop j s) \<and> foldsTo (drop j s) w \<and>
          isWordBoundary (Some (drop j s ! (length w - 1))) (drop (length w) (drop j s))) \<longleftrightarrow>
         termAt (js w) s j"
proof (cases "j + length w \<le> length s \<and> list_all2 sameLetter (take (length w) (drop j s)) (js w)")
  case False
  with foldsTo_sameLetter[OF w j] show ?thesis by (auto simp: termAt_def js_def)
next
  case True
  then have fit: "j + length w \<le> length s"
    and m: "list_all2 sameLetter (take (length w) (drop j s)) (js w)" by simp_all
  note ends = term_ends[OF w fit m]
  from w have n: "0 < length w" by (simp add: plainTerm_def)
  from n have "j + (length w - 1) = j + length w - 1" by arith
  with fit n have last: "drop j s ! (length w - 1) = s ! (j + length w - 1)"
    by simp
  have b: "isWordBoundary (prevAt None s j) (drop j s) \<longleftrightarrow> j = 0 \<or> \<not> isWordChar (s ! (j - 1))"
    using ends(1,2) by (rule boundary_before)
  have a: "isWordBoundary (Some (s ! (j + length w - 1))) (drop (j + length w) s) \<longleftrightarrow>
      j + length w = length s \<or> \<not> isWordChar (s ! (j + length w))"
    using fit ends(3) by (rule boundary_after)
  have "drop (length w) (drop j s) = drop (j + length w) s" by (simp add: add.commute)
  with a b last True foldsTo_sameLetter[OF w j] show ?thesis
    by (simp add: termAt_def js_def)
qed

lemma boilerplateTerms_plain: "\<forall>w\<in>set boilerplateTerms. plainTerm w"
  by (simp add: boilerplateTerms_def plainTerm_def)

lemma boilerplateRe_terms: "boilerplateRe = seqs [WordB, Cap 1 (alts (map strI boilerplateTerms)), WordB]"
  by (simp add: boilerplateRe_def boilerplateTerms_def)

lemma word_terms_plain:
  assumes plain: "\<forall>w\<in>set ws. plainTerm w"
  shows "rtest (seqs [WordB, Cap n (alts (map strI ws)), WordB]) s \<longleftrightarrow>
     (\<exists>w\<in>set ws. containsTerm (js w) s)"
proof -
  let ?re = "seqs [WordB, Cap n (alts (map strI ws)), WordB]"
  have ne: "\<forall>w\<in>set ws. w \<noteq> []"
    using plain by (auto simp: plainTerm_def)
  have "rtest ?re s \<longleftrightarrow>
      (\<exists>j\<le>length s. matcher ?re Some (0 + j, prevAt None s j, drop j s, []) \<noteq> None)"
    unfolding rtest_def rexec_def by (rule searchFrom_Some)
  also have "\<dots> \<longleftrightarrow> (\<exists>j\<le>length s. \<exists>w\<in>set ws. termAt (js w) s j)"
  proof -
    have "matcher ?re Some (0 + j, prevAt None s j, drop j s, []) \<noteq> None \<longleftrightarrow>
        (\<exists>w\<in>set ws. termAt (js w) s j)" if j: "j \<le> length s" for j
    proof -
      have "matcher ?re Some (0 + j, prevAt None s j, drop j s, []) \<noteq> None \<longleftrightarrow>
          isWordBoundary (prevAt None s j) (drop j s) \<and>
          (\<exists>w\<in>set ws. foldsTo (drop j s) w \<and>
             isWordBoundary (Some (drop j s ! (length w - 1))) (drop (length w) (drop j s)))"
        using ne by (rule word_alts_match)
      also have "\<dots> \<longleftrightarrow> (\<exists>w\<in>set ws.
          isWordBoundary (prevAt None s j) (drop j s) \<and> foldsTo (drop j s) w \<and>
             isWordBoundary (Some (drop j s ! (length w - 1))) (drop (length w) (drop j s)))"
        by blast
      also have "\<dots> \<longleftrightarrow> (\<exists>w\<in>set ws. termAt (js w) s j)"
        using term_match[OF _ j] plain by blast
      finally show ?thesis .
    qed
    then show ?thesis by blast
  qed
  also have "\<dots> \<longleftrightarrow> (\<exists>w\<in>set ws. containsTerm (js w) s)"
  proof -
    have "set [0..<Suc (length s)] = {j. j \<le> length s}" by auto
    then have "(\<exists>w\<in>set ws. containsTerm (js w) s) \<longleftrightarrow>
        (\<exists>w\<in>set ws. \<exists>j\<in>{j. j \<le> length s}. termAt (js w) s j)"
      by (simp only: containsTerm_def list_ex_iff)
    then show ?thesis by blast
  qed
  finally show ?thesis .
qed

lemma boilerplate_plain: "rtest boilerplateRe s \<longleftrightarrow> containsBoilerplate s"
  using word_terms_plain[OF boilerplateTerms_plain, of 1 s]
  by (simp only: boilerplateRe_terms containsBoilerplate_def list_ex_iff)

lemma space_not_word: "isSpace c \<Longrightarrow> \<not> isWordChar c"
  by (auto simp: isSpace_def isWordChar_def)

lemma pad_nth:
  "k < length u \<Longrightarrow> (a @ u @ b) ! (length a + k) = u ! k"
  by (simp add: nth_append)

lemma pad_nth_after:
  assumes "length a + length u \<le> i"
  shows "(a @ u @ b) ! i = b ! (i - length a - length u)"
proof -
  from assms have "\<not> i < length a" "\<not> i - length a < length u" by arith+
  then show ?thesis by (simp add: nth_append)
qed

lemma pad_take:
  assumes "k + n \<le> length u"
  shows "take n (drop (length a + k) (a @ u @ b)) = take n (drop k u)"
  using assms by simp

lemma termAt_inner:
  assumes w: "plainTerm w" and a: "\<forall>x\<in>set a. isSpace x" and b: "\<forall>x\<in>set b. isSpace x"
    and t: "termAt (js w) u k"
  shows "termAt (js w) (a @ u @ b) (length a + k)"
proof -
  let ?n = "length (js w)"
  let ?s = "a @ u @ b"
  from t have fit: "k + ?n \<le> length u"
    and m: "list_all2 sameLetter (take ?n (drop k u)) (js w)"
    and bb: "k = 0 \<or> \<not> isWordChar (u ! (k - 1))"
    and ba: "k + ?n = length u \<or> \<not> isWordChar (u ! (k + ?n))"
    by (simp_all add: termAt_def)
  from fit have 1: "length a + k + ?n \<le> length ?s" by simp
  have 2: "list_all2 sameLetter (take ?n (drop (length a + k) ?s)) (js w)"
    unfolding pad_take[OF fit] by (rule m)
  have 3: "length a + k = 0 \<or> \<not> isWordChar (?s ! (length a + k - 1))"
  proof (cases "k = 0")
    case True
    show ?thesis
    proof (cases "a = []")
      case True
      with \<open>k = 0\<close> show ?thesis by simp
    next
      case False
      then have "?s ! (length a - 1) = last a" by (simp add: nth_append last_conv_nth)
      moreover from False a have "isSpace (last a)" by simp
      ultimately show ?thesis using \<open>k = 0\<close> by (simp add: space_not_word)
    qed
  next
    case False
    with fit have "k - 1 < length u" by simp
    from pad_nth[OF this, of a b] False have "?s ! (length a + k - 1) = u ! (k - 1)" by simp
    with bb False show ?thesis by simp
  qed
  have 4: "length a + k + ?n = length ?s \<or> \<not> isWordChar (?s ! (length a + k + ?n))"
  proof (cases "k + ?n = length u")
    case True
    show ?thesis
    proof (cases "b = []")
      case True
      with \<open>k + ?n = length u\<close> show ?thesis by simp
    next
      case False
      with True have "?s ! (length a + k + ?n) = hd b"
        by (simp add: nth_append hd_conv_nth add.assoc)
      moreover from False b have "isSpace (hd b)" by simp
      ultimately show ?thesis by (simp add: space_not_word)
    qed
  next
    case False
    with fit have "k + ?n < length u" by simp
    from pad_nth[OF this, of a b] have "?s ! (length a + k + ?n) = u ! (k + ?n)"
      by (simp add: add.assoc)
    with ba False show ?thesis by simp
  qed
  from 1 2 3 4 show ?thesis by (simp add: termAt_def)
qed

lemma termAt_outer:
  assumes w: "plainTerm w" and a: "\<forall>x\<in>set a. isSpace x" and b: "\<forall>x\<in>set b. isSpace x"
    and t: "termAt (js w) (a @ u @ b) j"
  shows "length a \<le> j \<and> termAt (js w) u (j - length a)"
proof -
  let ?n = "length w"
  let ?s = "a @ u @ b"
  have nl: "length (js w) = ?n" by (simp add: js_def)
  from w have n: "0 < ?n" by (simp add: plainTerm_def)
  from t have fit: "j + ?n \<le> length ?s"
    and m: "list_all2 sameLetter (take ?n (drop j ?s)) (js w)"
    and bb: "j = 0 \<or> \<not> isWordChar (?s ! (j - 1))"
    and ba: "j + ?n = length ?s \<or> \<not> isWordChar (?s ! (j + ?n))"
    by (simp_all add: termAt_def nl)
  note ends = term_ends[OF w fit m]
  have ja: "length a \<le> j"
  proof (rule ccontr)
    assume "\<not> length a \<le> j"
    then have "j < length a" by simp
    then have "?s ! j = a ! j" "a ! j \<in> set a" by (simp_all add: nth_append)
    with a ends(2) show False by (auto dest: space_not_word)
  qed
  define k where "k = j - length a"
  with ja have j: "j = length a + k" by simp
  have ku: "k + ?n \<le> length u"
  proof (rule ccontr)
    assume "\<not> k + ?n \<le> length u"
    then have big: "length a + length u \<le> j + ?n - 1" using j n by arith
    let ?i = "j + ?n - 1 - length a - length u"
    from pad_nth_after[OF big, of b] have "?s ! (j + ?n - 1) = b ! ?i" .
    moreover from fit have "j + ?n \<le> length a + length u + length b" by simp
    with big n have "?i < length b" by arith
    then have "b ! ?i \<in> set b" by simp
    ultimately show False using b ends(3) by (auto dest: space_not_word)
  qed
  from m have 2: "list_all2 sameLetter (take ?n (drop k u)) (js w)"
    unfolding j pad_take[OF ku] .
  have 3: "k = 0 \<or> \<not> isWordChar (u ! (k - 1))"
  proof (cases "k = 0")
    case True
    then show ?thesis by simp
  next
    case False
    with ku have "k - 1 < length u" by simp
    from pad_nth[OF this, of a b] False j have "?s ! (j - 1) = u ! (k - 1)" by simp
    with bb False j show ?thesis by simp
  qed
  have 4: "k + ?n = length u \<or> \<not> isWordChar (u ! (k + ?n))"
  proof (cases "k + ?n = length u")
    case True
    then show ?thesis by simp
  next
    case False
    with ku have lt: "k + ?n < length u" by simp
    from pad_nth[OF this, of a b] j have "?s ! (j + ?n) = u ! (k + ?n)" by (simp add: add.assoc)
    moreover from lt j have "j + ?n \<noteq> length ?s" by simp
    ultimately show ?thesis using ba by simp
  qed
  from ku 2 3 4 have "termAt (js w) u k" by (simp add: termAt_def nl)
  with ja show ?thesis by (simp add: k_def)
qed

lemma containsTerm_pad:
  assumes w: "plainTerm w" and a: "\<forall>x\<in>set a. isSpace x" and b: "\<forall>x\<in>set b. isSpace x"
  shows "containsTerm (js w) (a @ u @ b) \<longleftrightarrow> containsTerm (js w) u"
proof
  assume "containsTerm (js w) (a @ u @ b)"
  then obtain j where "termAt (js w) (a @ u @ b) j"
    by (auto simp: containsTerm_def list_ex_iff)
  from termAt_outer[OF w a b this] have t: "termAt (js w) u (j - length a)" by simp
  then have "j - length a + length (js w) \<le> length u" by (simp add: termAt_def)
  then have "j - length a < Suc (length u)" by arith
  then have "j - length a \<in> set [0..<Suc (length u)]"
    by (simp only: set_upt atLeastLessThan_iff le0 simp_thms)
  with t show "containsTerm (js w) u" unfolding containsTerm_def list_ex_iff by blast
next
  assume "containsTerm (js w) u"
  then obtain k where "termAt (js w) u k"
    by (auto simp: containsTerm_def list_ex_iff)
  from termAt_inner[OF w a b this] have t: "termAt (js w) (a @ u @ b) (length a + k)" .
  then have "length a + k + length (js w) \<le> length (a @ u @ b)" by (simp only: termAt_def)
  then have "length a + k < Suc (length (a @ u @ b))" by arith
  then have "length a + k \<in> set [0..<Suc (length (a @ u @ b))]"
    by (simp only: set_upt atLeastLessThan_iff le0 simp_thms)
  with t show "containsTerm (js w) (a @ u @ b)" unfolding containsTerm_def list_ex_iff by blast
qed

lemma boilerplate_trim: "containsBoilerplate (trim t) \<longleftrightarrow> containsBoilerplate t"
proof -
  let ?a = "takeWhile isSpace t"
  let ?b = "rev (takeWhile isSpace (rev (dropWhile isSpace t)))"
  have a: "\<forall>x\<in>set ?a. isSpace x" by (auto dest: set_takeWhileD)
  have b: "\<forall>x\<in>set ?b. isSpace x" by (auto dest: set_takeWhileD)
  have "?a @ dropWhile isSpace t = t" by simp
  with trim_decomp[of t] have t: "?a @ trim t @ ?b = t" by simp
  have "containsTerm (js w) (?a @ trim t @ ?b) \<longleftrightarrow> containsTerm (js w) (trim t)"
    if "w \<in> set boilerplateTerms" for w
    using that boilerplateTerms_plain a b by (intro containsTerm_pad) blast+
  then have "containsBoilerplate (?a @ trim t @ ?b) \<longleftrightarrow> containsBoilerplate (trim t)"
    by (simp add: containsBoilerplate_def list_ex_iff)
  with t show ?thesis by simp
qed

lemma suspicious_plain: "suspicious (trim t) \<longleftrightarrow> 8 < wordCount t \<and> containsBoilerplate t"
  by (simp add: suspicious_def boilerplate_plain boilerplate_trim splitWs_wordCount conj_commute)

lemma sample_term: "termAt (js ''unknown'') (js ''unknown a b c d e f g h'') 0"
  by (simp add: termAt_def js_def sameLetter_def isWordChar_def)

lemma sample_accented:
  "suspicious (trim (js ''unknown'' @ 233 # js ''s a b c d e f g h''))"
  by (simp add: suspicious_def boilerplateRe_def eval_defs)

text \<open>
  Claim C5, as the claim states it, fails: the words of the candidate below are
  \<open>unknown\<close> followed by an accented letter and \<open>s\<close>, then \<open>a\<close>, ..., \<open>h\<close>. None of them is
  a boilerplate term, the term \<open>unknown\<close> is only the beginning of the first word, and
  still the tier handles the candidate: the accented letter is no word character of a
  regular expression, so a word boundary follows the term.
\<close>

theorem findEvidence_suspicious_counterexample:
  "splitWs (trim (js ''unknown'' @ 233 # js ''s a b c d e f g h'')) =
     [js ''unknown'' @ 233 # js ''s'', js ''a'', js ''b'', js ''c'', js ''d'', js ''e'',
      js ''f'', js ''g'', js ''h''] \<and>
   findEvidence (Some (js ''unknown'' @ 233 # js ''s a b c d e f g h''))
      [\<lparr>file_name = js ''chunk_0000.txt'', file_text = js ''x Ab y''\<rparr>] \<lparr>primary_url = None\<rparr> =
     Inr \<lparr>sourceFile = js ''chunk_0000.txt'', sourceUrl = None, sourceSection = [],
          selector = js ''chunk:'' @ js ''chunk_0000.txt'',
          snippet = js ''Invalid search text - no evidence found''\<rparr>"
proof
  show "splitWs (trim (js ''unknown'' @ 233 # js ''s a b c d e f g h'')) =
     [js ''unknown'' @ 233 # js ''s'', js ''a'', js ''b'', js ''c'', js ''d'', js ''e'',
      js ''f'', js ''g'', js ''h'']"
    by (simp add: js_def trim_def splitWs_def isSpace_def)
  have ne: "js ''unknown'' @ 233 # js ''s a b c d e f g h'' \<noteq> []" by (simp add: js_def)
  have n: "js ''chunk_0000.txt'' \<noteq> []" by (simp add: js_def)
  from ne sample_accented n
  show "findEvidence (Some (js ''unknown'' @ 233 # js ''s a b c d e f g h''))
      [\<lparr>file_name = js ''chunk_0000.txt'', file_text = js ''x Ab y''\<rparr>] \<lparr>primary_url = None\<rparr> =
     Inr \<lparr>sourceFile = js ''chunk_0000.txt'', sourceUrl = None, sourceSection = [],
          selector = js ''chunk:'' @ js ''chunk_0000.txt'',
          snippet = js ''Invalid search text - no evidence found''\<rparr>"
    by (simp add: findEvidence_def invalidSearch_def firstFile_def noEvidenceMarker_def)
qed

text \<open>
  Claim C5, amended. A candidate is handled by the suspicious-text tier exactly when it
  has more than 8 words (maximal runs of code units that are not white space) and
  contains one of the five terms, in either case, with no letter \<open>a-z\<close> or \<open>A-Z\<close>, digit or
  underscore directly before or after it. Then the result is the record with the ``no
  evidence found'' marker, built from the name of the first chunk alone: it is the same
  for every chunk list with the same file names, whatever the chunks contain, and it
  cites the first chunk when there is one with a name. Any other candidate that is not
  empty goes on to the search tiers.
\<close>

theorem findEvidence_suspicious_tier:
  "(8 < wordCount t \<and> containsBoilerplate t \<longrightarrow>
      findEvidence (Some t) chunks m =
        Inr \<lparr>sourceFile = firstFile chunks, sourceUrl = primary_url m, sourceSection = [],
             selector = js ''chunk:'' @ firstFile chunks, snippet = noEvidenceMarker\<rparr> \<and>
      (\<forall>chunks' :: fchunk list. map file_name chunks' = map file_name chunks \<longrightarrow>
          findEvidence (Some t) chunks' m = findEvidence (Some t) chunks m) \<and>
      (chunks \<noteq> [] \<and> file_name (hd chunks) \<noteq> [] \<longrightarrow> firstFile chunks = file_name (hd chunks))) \<and>
   (t \<noteq> [] \<and> \<not> (8 < wordCount t \<and> containsBoilerplate t) \<longrightarrow>
      findEvidence (Some t) chunks m = searchTiers (trim t) chunks m)"
proof (intro conjI impI)
  assume h: "8 < wordCount t \<and> containsBoilerplate t"
  then have ne: "t \<noteq> []" by (auto simp: wordCount_def)
  from h have s: "suspicious (trim t)" by (simp add: suspicious_plain)
  from ne s have run: "findEvidence (Some t) cs m = Inr (invalidSearch cs m)" for cs
    by (simp add: findEvidence_def)
  then show "findEvidence (Some t) chunks m =
        Inr \<lparr>sourceFile = firstFile chunks, sourceUrl = primary_url m, sourceSection = [],
             selector = js ''chunk:'' @ firstFile chunks, snippet = noEvidenceMarker\<rparr>"
    by (simp add: invalidSearch_def)
  show "\<forall>chunks' :: fchunk list. map file_name chunks' = map file_name chunks \<longrightarrow>
          findEvidence (Some t) chunks' m = findEvidence (Some t) chunks m"
  proof (intro allI impI)
    fix chunks' :: "fchunk list" assume "map file_name chunks' = map file_name chunks"
    then have "firstFile chunks' = firstFile chunks" by (rule firstFile_names)
    then show "findEvidence (Some t) chunks' m = findEvidence (Some t) chunks m"
      by (simp add: run invalidSearch_def)
  qed
next
  assume "chunks \<noteq> [] \<and> file_name (hd chunks) \<noteq> []"
  then show "firstFile chunks = file_name (hd chunks)"
    by (cases chunks) (simp_all add: firstFile_def)
next
  assume "t \<noteq> [] \<and> \<not> (8 < wordCount t \<and> containsBoilerplate t)"
  then have "t \<noteq> []" "\<not> suspicious (trim t)" by (simp_all add: suspicious_plain)
  then show "findEvidence (Some t) chunks m = searchTiers (trim t) chunks m"
    by (simp add: findEvidence_def)
qed

theorem findEvidence_suspicious_tier_witness:
  "8 < wordCount (js ''unknown a b c d e f g h'') \<and>
   containsBoilerplate (js ''unknown a b c d e f g h'') \<and>
   findEvidence (Some (js ''unknown a b c d e f g h''))
      [\<lparr>file_name = js ''chunk_0000.txt'', file_text = js ''x Ab y''\<rparr>] \<lparr>primary_url = None\<rparr> =
      Inr \<lparr>sourceFile = js ''chunk_0000.txt'', sourceUrl = None, sourceSection = [],
           selector = js ''chunk:'' @ js ''chunk_0000.txt'', snippet = noEvidenceMarker\<rparr> \<and>
   wordCount (js ''ab'') = 1 \<and>
   findEvidence (Some (js ''ab''))
      [\<lparr>file_name = js ''chunk_0000.txt'', file_text = js ''x Ab y''\<rparr>] \<lparr>primary_url = None\<rparr> =
      searchTiers (trim (js ''ab''))
        [\<lparr>file_name = js ''chunk_0000.txt'', file_text = js ''x Ab y''\<rparr>] \<lparr>primary_url = None\<rparr>"
proof -
  let ?chunks = "[\<lparr>file_name = js ''chunk_0000.txt'', file_text = js ''x Ab y''\<rparr>]"
  let ?m = "\<lparr>primary_url = None\<rparr>"
  let ?t = "js ''unknown a b c d e f g h''"
  have n: "js ''chunk_0000.txt'' \<noteq> []" by (simp add: js_def)
  have w: "8 < wordCount ?t" by (simp add: wordCount_def js_def isSpace_def)
  have z: "0 \<in> set [0..<Suc (length ?t)]" by simp
  have "\<exists>j\<in>set [0..<Suc (length ?t)]. termAt (js ''unknown'') ?t j"
    by (rule bexI[where x = 0]) (fact sample_term, fact z)
  then have "containsTerm (js ''unknown'') ?t"
    by (simp only: containsTerm_def list_ex_iff)
  moreover have "''unknown'' \<in> set boilerplateTerms" by (simp add: boilerplateTerms_def)
  ultimately have "\<exists>w\<in>set boilerplateTerms. containsTerm (js w) ?t"
    by (rule rev_bexI[where x = "''unknown''", rotated])
  then have c: "containsBoilerplate ?t"
    by (simp only: containsBoilerplate_def list_ex_iff)
  from findEvidence_suspicious_tier[of ?t ?chunks ?m] w c
  have "findEvidence (Some ?t) ?chunks ?m =
        Inr \<lparr>sourceFile = firstFile ?chunks, sourceUrl = primary_url ?m, sourceSection = [],
             selector = js ''chunk:'' @ firstFile ?chunks, snippet = noEvidenceMarker\<rparr>"
    and "firstFile ?chunks = file_name (hd ?chunks)"
    using n by simp_all
  then have 1: "findEvidence (Some ?t) ?chunks ?m =
      Inr \<lparr>sourceFile = js ''chunk_0000.txt'', sourceUrl = None, sourceSection = [],
           selector = js ''chunk:'' @ js ''chunk_0000.txt'', snippet = noEvidenceMarker\<rparr>"
    by simp
  have ne: "js ''ab'' \<noteq> []" by (simp add: js_def)
  have w1: "wordCount (js ''ab'') = 1" by (simp add: wordCount_def js_def isSpace_def)
  with findEvidence_suspicious_tier[of "js ''ab''" ?chunks ?m] ne
  have 2: "findEvidence (Some (js ''ab'')) ?chunks ?m = searchTiers (trim (js ''ab'')) ?chunks ?m"
    by simp
  from w c 1 w1 2 show ?thesis by (intro conjI)
qed

section \<open>Properties of the cross-field date check\<close>

lemma div_succ:
  fixes z k :: int
  assumes "1 < k"
  shows "(z + 1) div k = z div k + (if (z + 1) mod k = 0 then 1 else 0)"
proof -
  define q where "q = z div k"
  define r where "r = z mod k"
  have r: "0 \<le> r" "r < k" using assms by (simp_all add: r_def)
  have z: "z = r + k * q" by (simp add: q_def r_def)
  have k: "k \<noteq> 0" using assms by simp
  show ?thesis
  proof (cases "r + 1 = k")
    case True
    have "z + 1 = 0 + k * (q + 1)" unfolding z using True by (simp add: algebra_simps)
    then have "(z + 1) div k = q + 1" and "(z + 1) mod k = 0" using k by simp_all
    then show ?thesis by (simp add: q_def)
  next
    case False
    with r have lt: "r + 1 < k" by linarith
    have e: "z + 1 = (r + 1) + k * q" unfolding z by simp
    have "(z + 1) div k = q + (r + 1) div k" unfolding e using k by (rule div_mult_self2)
    with lt r have d: "(z + 1) div k = q" by (simp add: div_pos_pos_trivial)
    have "(z + 1) mod k = (r + 1) mod k" unfolding e by (rule mod_mult_self2)
    with lt r have "(z + 1) mod k = r + 1" by (simp add: mod_pos_pos_trivial)
    with r have "(z + 1) mod k \<noteq> 0" by linarith
    with d show ?thesis by (simp add: q_def)
  qed
qed

lemma DayFromYear_step:
  "DayFromYear (y + 1) = DayFromYear y + 365 + (if InLeapYear y then 1 else 0)"
proof -
  have s4: "(y - 1968) mod 4 = y mod 4" by algebra
  have s100: "(y - 1900) mod 100 = y mod 100" by algebra
  have s400: "(y - 1600) mod 400 = y mod 400" by algebra
  have "(y - 1969 + 1) div 4 = (y - 1969) div 4 + (if (y - 1969 + 1) mod 4 = 0 then 1 else 0)"
    by (rule div_succ) simp
  then have d4: "(y - 1968) div 4 = (y - 1969) div 4 + (if y mod 4 = 0 then 1 else 0)"
    by (simp add: s4)
  have "(y - 1901 + 1) div 100 = (y - 1901) div 100 + (if (y - 1901 + 1) mod 100 = 0 then 1 else 0)"
    by (rule div_succ) simp
  then have d100: "(y - 1900) div 100 = (y - 1901) div 100 + (if y mod 100 = 0 then 1 else 0)"
    by (simp add: s100)
  have "(y - 1601 + 1) div 400 = (y - 1601) div 400 + (if (y - 1601 + 1) mod 400 = 0 then 1 else 0)"
    by (rule div_succ) simp
  then have d400: "(y - 1600) div 400 = (y - 1601) div 400 + (if y mod 400 = 0 then 1 else 0)"
    by (simp add: s400)
  have m1: "y mod 100 = 0" if "y mod 400 = 0"
  proof -
    from that have "400 dvd y" by (simp add: mod_eq_0_iff_dvd)
    with dvd_trans[of 100 400 y] have "100 dvd y" by simp
    then show ?thesis by (simp add: mod_eq_0_iff_dvd)
  qed
  have m2: "y mod 4 = 0" if "y mod 100 = 0"
  proof -
    from that have "100 dvd y" by (simp add: mod_eq_0_iff_dvd)
    with dvd_trans[of 4 100 y] have "4 dvd y" by simp
    then show ?thesis by (simp add: mod_eq_0_iff_dvd)
  qed
  have "DayFromYear (y + 1) =
      365 * (y - 1969) + (y - 1968) div 4 - (y - 1900) div 100 + (y - 1600) div 400"
    by (simp add: DayFromYear_def)
  also have "\<dots> = DayFromYear y + 365 + (if y mod 4 = 0 then 1 else 0)
        - (if y mod 100 = 0 then 1 else 0) + (if y mod 400 = 0 then 1 else 0)"
    unfolding d4 d100 d400 DayFromYear_def by simp
  also have "\<dots> = DayFromYear y + 365 + (if InLeapYear y then 1 else 0)"
  proof -
    have leap: "(if a then 1 else 0) - (if b then 1 else 0) + (if c then 1 else 0)
        = (if a \<and> (\<not> b \<or> c) then 1 else (0::int))"
      if "c \<Longrightarrow> b" "b \<Longrightarrow> a" for a b c
      using that by (cases a; cases b; cases c) simp_all
    have "(if y mod 4 = 0 then 1 else 0) - (if y mod 100 = 0 then 1 else 0)
        + (if y mod 400 = 0 then 1 else 0) = (if InLeapYear y then 1 else (0::int))"
      unfolding InLeapYear_def by (rule leap) (fact m1, fact m2)
    then show ?thesis by linarith
  qed
  finally show ?thesis .
qed

lemma DayFromYear_mono:
  "y < y' \<Longrightarrow> DayFromYear y + 365 + (if InLeapYear y then 1 else 0) \<le> DayFromYear y'"
proof (induction "nat (y' - y - 1)" arbitrary: y')
  case 0
  then have "y' = y + 1" by simp
  then show ?case by (simp add: DayFromYear_step)
next
  case (Suc n)
  then have "n = nat ((y' - 1) - y - 1)" and "y < y' - 1" by simp_all
  from Suc.hyps(1)[OF this] have "DayFromYear y + 365 + (if InLeapYear y then 1 else 0) \<le> DayFromYear (y' - 1)" .
  also have "\<dots> \<le> DayFromYear y'" using DayFromYear_step[of "y' - 1"] by simp
  finally show ?case .
qed

lemma month_cases:
  assumes "1 \<le> m" "m \<le> (12::nat)"
  shows "m = 1 \<or> m = 2 \<or> m = 3 \<or> m = 4 \<or> m = 5 \<or> m = 6 \<or> m = 7 \<or> m = 8 \<or> m = 9 \<or> m = 10 \<or> m = 11 \<or> m = 12"
  using assms by presburger

lemma daysBeforeMonth_next:
  assumes "1 \<le> m" "m \<le> 11"
  shows "daysBeforeMonth y (Suc m) = daysBeforeMonth y m + int (daysInMonth y m)"
proof -
  from assms have "m = 1 \<or> m = 2 \<or> m = 3 \<or> m = 4 \<or> m = 5 \<or> m = 6 \<or> m = 7 \<or> m = 8 \<or> m = 9 \<or> m = 10 \<or> m = 11"
    by presburger
  then show ?thesis
    by (elim disjE) (simp_all add: daysBeforeMonth_def daysInMonth_def)
qed

lemma daysInMonth_pos: "1 \<le> daysInMonth y m"
  by (simp add: daysInMonth_def)

lemma daysBeforeMonth_mono:
  "1 \<le> m \<Longrightarrow> m < m' \<Longrightarrow> m' \<le> 12 \<Longrightarrow>
   daysBeforeMonth y m + int (daysInMonth y m) \<le> daysBeforeMonth y m'"
proof (induction m' rule: nat_induct)
  case 0
  then show ?case by simp
next
  case (Suc k)
  show ?case
  proof (cases "m = k")
    case True
    with Suc.prems show ?thesis by (simp add: daysBeforeMonth_next)
  next
    case False
    with Suc.prems have "m < k" "k \<le> 12" "1 \<le> k" "k \<le> 11" by simp_all
    with Suc.IH Suc.prems(1) have "daysBeforeMonth y m + int (daysInMonth y m) \<le> daysBeforeMonth y k"
      by simp
    also have "\<dots> \<le> daysBeforeMonth y (Suc k)"
      using \<open>1 \<le> k\<close> \<open>k \<le> 11\<close> by (simp add: daysBeforeMonth_next)
    finally show ?thesis .
  qed
qed

lemma daysBeforeMonth_year:
  assumes "1 \<le> m" "m \<le> 12"
  shows "0 \<le> daysBeforeMonth y m"
    and "daysBeforeMonth y m + int (daysInMonth y m) \<le> 365 + (if InLeapYear y then 1 else 0)"
proof -
  from month_cases[OF assms]
  show "0 \<le> daysBeforeMonth y m"
    by (elim disjE) (simp_all add: daysBeforeMonth_def)
  from month_cases[OF assms]
  show "daysBeforeMonth y m + int (daysInMonth y m) \<le> 365 + (if InLeapYear y then 1 else 0)"
    by (elim disjE) (simp_all add: daysBeforeMonth_def daysInMonth_def)
qed

lemma MakeDay_later:
  assumes "calendarDate (y, m, d)" "calendarDate (y', m', d')"
  shows "MakeDay y' m' d' < MakeDay y m d \<longleftrightarrow> laterDate (y, m, d) (y', m', d')"
proof -
  from assms have v: "1 \<le> m" "m \<le> 12" "1 \<le> d" "d \<le> daysInMonth (int y) m"
    and v': "1 \<le> m'" "m' \<le> 12" "1 \<le> d'" "d' \<le> daysInMonth (int y') m'"
    by (simp_all add: calendarDate_def)
  have lt: "MakeDay b n e < MakeDay a k c"
    if "laterDate (a, k, c) (b, n, e)" "1 \<le> k" "k \<le> 12" "1 \<le> c" "c \<le> daysInMonth (int a) k"
       "1 \<le> n" "n \<le> 12" "1 \<le> e" "e \<le> daysInMonth (int b) n" for a k c b n e
  proof -
    from that(4) have ic: "1 \<le> int c" by simp
    from that(9) have ie: "int e \<le> int (daysInMonth (int b) n)" by simp
    from that(1) consider "b < a" | "b = a" "n < k" | "b = a" "n = k" "e < c"
      by (auto simp: laterDate_def)
    then show ?thesis
    proof cases
      case 1
      then have "DayFromYear (int b) + 365 + (if InLeapYear (int b) then 1 else 0) \<le> DayFromYear (int a)"
        by (intro DayFromYear_mono) simp
      moreover have "daysBeforeMonth (int b) n + int (daysInMonth (int b) n)
          \<le> 365 + (if InLeapYear (int b) then 1 else 0)"
        using that(6,7) by (rule daysBeforeMonth_year)
      moreover have "0 \<le> daysBeforeMonth (int a) k" using that(2,3) by (rule daysBeforeMonth_year)
      ultimately show ?thesis using ic ie unfolding MakeDay_def by linarith
    next
      case 2
      have "daysBeforeMonth (int a) n + int (daysInMonth (int a) n) \<le> daysBeforeMonth (int a) k"
        using that(6) 2(2) that(3) by (rule daysBeforeMonth_mono)
      with 2(1) ic ie show ?thesis unfolding MakeDay_def by simp
    next
      case 3
      then show ?thesis unfolding MakeDay_def by simp
    qed
  qed
  show ?thesis
  proof
    assume "laterDate (y, m, d) (y', m', d')"
    from lt[OF this v v'] show "MakeDay y' m' d' < MakeDay y m d" .
  next
    assume a: "MakeDay y' m' d' < MakeDay y m d"
    show "laterDate (y, m, d) (y', m', d')"
    proof (rule ccontr)
      assume n: "\<not> laterDate (y, m, d) (y', m', d')"
      then have "(y, m, d) = (y', m', d') \<or> laterDate (y', m', d') (y, m, d)"
        by (auto simp: laterDate_def)
      then show False
      proof
        assume "(y, m, d) = (y', m', d')"
        with a show False by simp
      next
        assume "laterDate (y', m', d') (y, m, d)"
        from lt[OF this v' v] a show False by simp
      qed
    qed
  qed
qed

lemma isoParts_sample:
  "isoParts (js ''2023-08-01'') = Some (2023, 8, 1)"
  "isoParts (js ''2023-07-26'') = Some (2023, 7, 26)"
  by (simp_all add: isoParts_def js_def isDigit_def digitsVal_def)

lemma calendarDate_sample: "calendarDate (2023, 8, 1)" "calendarDate (2023, 7, 26)"
  by (simp_all add: calendarDate_def daysInMonth_def)

lemma isoParts_nonempty: "isoParts s = Some a \<Longrightarrow> s \<noteq> []"
  by (auto simp: isoParts_def split: if_splits)

lemma daysInMonth_le: "daysInMonth y m \<le> 31"
  by (simp add: daysInMonth_def)

lemma dateAfter_calendar:
  assumes "isoParts e = Some a" "isoParts f = Some b" "calendarDate a" "calendarDate b"
  shows "dateAfter e f \<longleftrightarrow> laterDate a b"
proof -
  obtain y m d where a: "a = (y, m, d)" by (cases a)
  obtain y' m' d' where b: "b = (y', m', d')" by (cases b)
  from assms(3) a have va: "1 \<le> m" "m \<le> 12" "1 \<le> d" "d \<le> daysInMonth (int y) m"
    by (simp_all add: calendarDate_def)
  from assms(4) b have vb: "1 \<le> m'" "m' \<le> 12" "1 \<le> d'" "d' \<le> daysInMonth (int y') m'"
    by (simp_all add: calendarDate_def)
  from va(4) daysInMonth_le[of "int y" m] have "d \<le> 31" by linarith
  with va assms(1) a have ve: "dateValue e = Some (MakeDay y m d * msPerDay)"
    by (simp add: dateValue_def)
  from vb(4) daysInMonth_le[of "int y'" m'] have "d' \<le> 31" by linarith
  with vb assms(2) b have vf: "dateValue f = Some (MakeDay y' m' d' * msPerDay)"
    by (simp add: dateValue_def)
  have "dateAfter e f \<longleftrightarrow> MakeDay y' m' d' < MakeDay y m d"
    by (simp add: dateAfter_def ve vf msPerDay_def)
  also have "\<dots> \<longleftrightarrow> laterDate (y, m, d) (y', m', d')"
    using assms(3,4) unfolding a b by (rule MakeDay_later)
  finally show ?thesis by (simp add: a b)
qed

lemma crossField_messages_differ:
  "effectiveAfterFiledMsg \<noteq> nonPositiveMsg" "effectiveAfterFiledMsg \<noteq> collaborationMsg"
  by (simp_all add: effectiveAfterFiledMsg_def nonPositiveMsg_def collaborationMsg_def js_def)

lemma crossField_effective_entry:
  "effectiveAfterFiledMsg \<in> set (crossFieldChecks tv kind eff fil ft ctx) \<longleftrightarrow>
   truthy eff \<and> truthy fil \<and> dateAfter (the eff) (the fil)"
  unfolding crossFieldChecks_def using crossField_messages_differ
  by (auto split: option.splits)

text \<open>
  Claim C9. When the effective date and the filed date of the record are both calendar
  dates in the form \<open>YYYY-MM-DD\<close>, the cross-field list gets the entry ``effective date is
  after filed date'' exactly when the effective date is the later one (by year, then
  month, then day), so not when it is earlier or the same day; there is no such entry
  when either date is missing; and an effective date 2023-08-01 with a filed date
  2023-07-26 gives the entry.
\<close>

theorem crossField_effective_after_filed:
  "(isoParts e = Some a \<and> isoParts f = Some b \<and> calendarDate a \<and> calendarDate b \<longrightarrow>
      (effectiveAfterFiledMsg \<in> set (crossFieldChecks tv kind (Some e) (Some f) ft ctx)
         \<longleftrightarrow> laterDate a b)) \<and>
   (\<not> truthy eff \<or> \<not> truthy fil \<longrightarrow>
      effectiveAfterFiledMsg \<notin> set (crossFieldChecks tv kind eff fil ft ctx)) \<and>
   effectiveAfterFiledMsg \<in>
      set (crossFieldChecks tv kind (Some (js ''2023-08-01'')) (Some (js ''2023-07-26'')) ft ctx)"
proof (intro conjI impI)
  assume h: "isoParts e = Some a \<and> isoParts f = Some b \<and> calendarDate a \<and> calendarDate b"
  then have "e \<noteq> []" "f \<noteq> []" by (auto dest: isoParts_nonempty)
  moreover from h have "dateAfter e f \<longleftrightarrow> laterDate a b" by (intro dateAfter_calendar) simp_all
  ultimately show "effectiveAfterFiledMsg \<in> set (crossFieldChecks tv kind (Some e) (Some f) ft ctx)
         \<longleftrightarrow> laterDate a b"
    by (simp add: crossField_effective_entry truthy_def)
next
  assume "\<not> truthy eff \<or> \<not> truthy fil"
  then show "effectiveAfterFiledMsg \<notin> set (crossFieldChecks tv kind eff fil ft ctx)"
    by (auto simp: crossField_effective_entry)
next
  have "dateAfter (js ''2023-08-01'') (js ''2023-07-26'') \<longleftrightarrow> laterDate (2023, 8, 1) (2023, 7, 26)"
    using isoParts_sample calendarDate_sample by (rule dateAfter_calendar)
  then have "dateAfter (js ''2023-08-01'') (js ''2023-07-26'')" by (simp add: laterDate_def)
  moreover have "js ''2023-08-01'' \<noteq> []" "js ''2023-07-26'' \<noteq> []" by (simp_all add: js_def)
  ultimately show "effectiveAfterFiledMsg \<in>
      set (crossFieldChecks tv kind (Some (js ''2023-08-01'')) (Some (js ''2023-07-26'')) ft ctx)"
    by (simp add: crossField_effective_entry truthy_def)
qed

theorem crossField_effective_after_filed_witness:
  "effectiveAfterFiledMsg \<notin>
      set (crossFieldChecks None None (Some (js ''2023-07-26'')) (Some (js ''2023-07-26'')) [] []) \<and>
   effectiveAfterFiledMsg \<notin>
      set (crossFieldChecks None None (Some (js ''2023-07-26'')) (Some (js ''2023-08-01'')) [] []) \<and>
   effectiveAfterFiledMsg \<notin>
      set (crossFieldChecks None None (Some (js ''2023-08-01'')) None [] []) \<and>
   crossFieldChecks None None (Some (js ''2023-08-01'')) (Some (js ''2023-07-26'')) [] []
      = [effectiveAfterFiledMsg]"
proof (intro conjI)
  note c9 = crossField_effective_after_filed
  from c9[of "js ''2023-07-26''" "(2023, 7, 26)" "js ''2023-07-26''" "(2023, 7, 26)" None None "[]" "[]"]
    isoParts_sample calendarDate_sample
  show "effectiveAfterFiledMsg \<notin>
      set (crossFieldChecks None None (Some (js ''2023-07-26'')) (Some (js ''2023-07-26'')) [] [])"
    by (simp add: laterDate_def)
  from c9[of "js ''2023-07-26''" "(2023, 7, 26)" "js ''2023-08-01''" "(2023, 8, 1)" None None "[]" "[]"]
    isoParts_sample calendarDate_sample
  show "effectiveAfterFiledMsg \<notin>
      set (crossFieldChecks None None (Some (js ''2023-07-26'')) (Some (js ''2023-08-01'')) [] [])"
    by (simp add: laterDate_def)
  from c9[where eff = "Some (js ''2023-08-01'')" and fil = None and tv = None and kind = None
      and ft = "[]" and ctx = "[]"]
  show "effectiveAfterFiledMsg \<notin> set (crossFieldChecks None None (Some (js ''2023-08-01'')) None [] [])"
    by (simp add: truthy_def)
  from c9[where tv = None and kind = None and ft = "[]" and ctx = "[]"]
  have "effectiveAfterFiledMsg \<in>
      set (crossFieldChecks None None (Some (js ''2023-08-01'')) (Some (js ''2023-07-26'')) [] [])"
    by simp
  then show "crossFieldChecks None None (Some (js ''2023-08-01'')) (Some (js ''2023-07-26'')) [] []
      = [effectiveAfterFiledMsg]"
    by (simp add: crossFieldChecks_def split: if_splits)
qed

section \<open>Partnerships and deals\<close>

subsection \<open>The order of the two branches\<close>

lemma partnershipTerms_plain: "\<forall>w\<in>set partnershipTerms. plainTerm w"
  by (simp add: partnershipTerms_def plainTerm_def)

lemma dealTerms_plain: "\<forall>w\<in>set dealTerms. plainTerm w"
  by (simp add: dealTerms_def plainTerm_def)

lemma isPartnership_plain: "rtest isPartnershipRe s \<longleftrightarrow> containsAny partnershipTerms s"
  using word_terms_plain[OF partnershipTerms_plain, of 1 s]
  by (simp only: isPartnershipRe_def partnershipTerms_def[symmetric] containsAny_def list_ex_iff)

lemma isDeal_plain: "rtest isDealRe s \<longleftrightarrow> containsAny dealTerms s"
  using word_terms_plain[OF dealTerms_plain, of 1 s]
  by (simp only: isDealRe_def dealTerms_def[symmetric] containsAny_def list_ex_iff)

lemma containsAny_intro:
  assumes "w \<in> set ws" "termAt (js w) s j"
  shows "containsAny ws s"
proof -
  from assms(2) have "j + length (js w) \<le> length s" by (simp add: termAt_def)
  then have "j < Suc (length s)" by arith
  then have "j \<in> set [0..<Suc (length s)]"
    by (simp only: set_upt atLeastLessThan_iff le0 simp_thms)
  with assms(2) have "\<exists>j\<in>set [0..<Suc (length s)]. termAt (js w) s j" by blast
  then have "containsTerm (js w) s" by (simp only: containsTerm_def list_ex_iff)
  with assms(1) have "\<exists>w\<in>set ws. containsTerm (js w) s" by blast
  then show ?thesis by (simp only: containsAny_def list_ex_iff)
qed

lemma relationship_partnership:
  "rtest isPartnershipRe c \<Longrightarrow>
   relationship f c n =
     (if complete (partnershipBranch f c n) then Some (partnershipBranch f c n) else None, None)"
  by (simp add: relationship_def)

lemma relationship_deal:
  "\<not> rtest isPartnershipRe c \<Longrightarrow> rtest isDealRe c \<Longrightarrow>
   relationship f c n = (None, Some (dealBranch c))"
  by (simp add: relationship_def)

lemma relationship_neither:
  "\<not> rtest isPartnershipRe c \<Longrightarrow> \<not> rtest isDealRe c \<Longrightarrow> relationship f c n = (None, None)"
  by (simp add: relationship_def)

lemma relationship_exclusive:
  "fst (relationship f c n) = None \<or> snd (relationship f c n) = None"
  by (simp add: relationship_def)

text \<open>
  Claim C7. A context window that contains a partnership keyword and a deal keyword is
  handled by the partnership branch: the output has no \<open>deal\<close> key, and its \<open>partnership\<close>
  key holds what the partnership branch built (if both parties were found). The deal
  branch runs only for a window with a deal keyword and no partnership keyword, and no
  output has both keys.
\<close>

theorem partnership_before_deal:
  "(containsAny partnershipTerms contextWindow \<and> containsAny dealTerms contextWindow \<longrightarrow>
      snd (relationship fullText contextWindow companyName) = None \<and>
      fst (relationship fullText contextWindow companyName) =
        (if complete (partnershipBranch fullText contextWindow companyName)
         then Some (partnershipBranch fullText contextWindow companyName) else None)) \<and>
   (containsAny dealTerms contextWindow \<and> \<not> containsAny partnershipTerms contextWindow \<longrightarrow>
      relationship fullText contextWindow companyName = (None, Some (dealBranch contextWindow))) \<and>
   (fst (relationship fullText contextWindow companyName) = None \<or>
    snd (relationship fullText contextWindow companyName) = None)"
proof (intro conjI impI)
  assume "containsAny partnershipTerms contextWindow \<and> containsAny dealTerms contextWindow"
  then have p: "rtest isPartnershipRe contextWindow" by (simp add: isPartnership_plain)
  from relationship_partnership[OF p, of fullText companyName]
  show "snd (relationship fullText contextWindow companyName) = None"
    and "fst (relationship fullText contextWindow companyName) =
        (if complete (partnershipBranch fullText contextWindow companyName)
         then Some (partnershipBranch fullText contextWindow companyName) else None)"
    by simp_all
next
  assume "containsAny dealTerms contextWindow \<and> \<not> containsAny partnershipTerms contextWindow"
  then have "\<not> rtest isPartnershipRe contextWindow" "rtest isDealRe contextWindow"
    by (simp_all add: isPartnership_plain isDeal_plain)
  then show "relationship fullText contextWindow companyName = (None, Some (dealBranch contextWindow))"
    by (rule relationship_deal)
next
  show "fst (relationship fullText contextWindow companyName) = None \<or>
    snd (relationship fullText contextWindow companyName) = None"
    by (rule relationship_exclusive)
qed

lemma sample_both_partner: "termAt (js ''partner'') (js ''partner merger'') 0"
  by (simp add: termAt_def js_def sameLetter_def isWordChar_def)

lemma sample_both_merger: "termAt (js ''merger'') (js ''partner merger'') 8"
  by (simp add: termAt_def js_def sameLetter_def isWordChar_def)

lemma sample_deal_only: "termAt (js ''merger'') (js ''merger'') 0"
  by (simp add: termAt_def js_def sameLetter_def isWordChar_def)

lemma sample_no_partnership: "\<not> rtest isPartnershipRe (js ''merger'')"
  by (simp add: isPartnershipRe_def eval_defs)

theorem partnership_before_deal_witness:
  "containsAny partnershipTerms (js ''partner merger'') \<and>
   containsAny dealTerms (js ''partner merger'') \<and>
   snd (relationship [] (js ''partner merger'') None) = None \<and>
   containsAny dealTerms (js ''merger'') \<and>
   relationship [] (js ''merger'') None = (None, Some (dealBranch (js ''merger'')))"
proof -
  have p: "containsAny partnershipTerms (js ''partner merger'')"
    by (rule containsAny_intro[OF _ sample_both_partner]) (simp add: partnershipTerms_def)
  have d: "containsAny dealTerms (js ''partner merger'')"
    by (rule containsAny_intro[OF _ sample_both_merger]) (simp add: dealTerms_def)
  have d': "containsAny dealTerms (js ''merger'')"
    by (rule containsAny_intro[OF _ sample_deal_only]) (simp add: dealTerms_def)
  from sample_no_partnership have np: "\<not> containsAny partnershipTerms (js ''merger'')"
    by (simp add: isPartnership_plain)
  from partnership_before_deal[of "js ''partner merger''" "[]" None] p d
  have 1: "snd (relationship [] (js ''partner merger'') None) = None" by simp
  from partnership_before_deal[of "js ''merger''" "[]" None] d' np
  have 2: "relationship [] (js ''merger'') None = (None, Some (dealBranch (js ''merger'')))" by simp
  from p d 1 d' 2 show ?thesis by (intro conjI)
qed

end
